theory Spec2Isabelle
  imports Main "HOL-Library.AList"
begin

section \<open>Python values, exceptions and effects\<close>

text \<open>
  The two classes of the interface, \<open>ManilaPluginProvides\<close> (provides.py, the subordinate
  plugin) and \<open>ManilaPluginRequires\<close> (requires.py, the principal), are embedded as
  functions on an explicit endpoint state. Exceptions are values: an operation returns
  either the exception raised or its result, together with the state it leaves behind.
\<close>

datatype error =
    IndexError | ValueError | KeyError | TypeError | AttributeError
  | JSONDecodeError | OutOfModel | OutOfFuel

text \<open>
  The Python values the interface passes around. Dictionaries keep their insertion order
  and are keyed by strings, as every dictionary of this interface is. \<open>PObject\<close> stands
  for any object the \<open>json\<close> module cannot serialise (a set, bytes, ...), compared by
  identity. Floating point numbers are outside the model.
\<close>

datatype pyval =
    PNone
  | PBool bool
  | PInt int
  | PStr string
  | PList "pyval list"
  | PTuple "pyval list"
  | PDict "(string \<times> pyval) list"
  | PObject nat

section \<open>The json module\<close>

text \<open>
  \<open>json.dumps\<close> and \<open>json.loads\<close> with their default arguments, after
  \<open>json.encoder\<close> and \<open>json.decoder\<close> of the Python standard library, on strings of
  8-bit characters. What the model leaves out is an error of its own: a number with a
  fraction or an exponent, \<open>NaN\<close>, \<open>Infinity\<close> and an escaped code point above 255 give
  \<open>OutOfModel\<close>.
\<close>

subsection \<open>json.dumps\<close>

definition hexdigit :: "nat \<Rightarrow> char" where
  "hexdigit n = ''0123456789abcdef'' ! n"

definition u_escape :: "nat \<Rightarrow> string" where
  "u_escape n =
     [CHR 0x5C, CHR ''u'', hexdigit (n div 4096 mod 16), hexdigit (n div 256 mod 16),
      hexdigit (n div 16 mod 16), hexdigit (n mod 16)]"

definition escape_char :: "char \<Rightarrow> string" where
  "escape_char c =
     (if c = CHR 0x5C then [CHR 0x5C, CHR 0x5C]
      else if c = CHR 0x22 then [CHR 0x5C, CHR 0x22]
      else if c = CHR 0x08 then [CHR 0x5C, CHR ''b'']
      else if c = CHR 0x0C then [CHR 0x5C, CHR ''f'']
      else if c = CHR 0x0A then [CHR 0x5C, CHR ''n'']
      else if c = CHR 0x0D then [CHR 0x5C, CHR ''r'']
      else if c = CHR 0x09 then [CHR 0x5C, CHR ''t'']
      else if (of_char c :: nat) < 0x20 \<or> (0x7E :: nat) < of_char c then u_escape (of_char c)
      else [c])"

definition encode_basestring_ascii :: "string \<Rightarrow> string" where
  "encode_basestring_ascii s = CHR 0x22 # concat (map escape_char s) @ [CHR 0x22]"

fun nat_repr :: "nat \<Rightarrow> string" where
  "nat_repr n =
     (if n < 10 then [char_of (48 + n)] else nat_repr (n div 10) @ [char_of (48 + n mod 10)])"

definition int_repr :: "int \<Rightarrow> string" where
  "int_repr i = (if i < 0 then CHR ''-'' # nat_repr (nat (- i)) else nat_repr (nat i))"

fun json_dumps :: "pyval \<Rightarrow> error + string"
  and dumps_list :: "pyval list \<Rightarrow> error + string"
  and dumps_items :: "(string \<times> pyval) list \<Rightarrow> error + string"
where
  "json_dumps PNone = Inr ''null''"
| "json_dumps (PBool b) = Inr (if b then ''true'' else ''false'')"
| "json_dumps (PInt i) = Inr (int_repr i)"
| "json_dumps (PStr s) = Inr (encode_basestring_ascii s)"
| "json_dumps (PList xs) =
     (case dumps_list xs of Inl err \<Rightarrow> Inl err | Inr t \<Rightarrow> Inr (''['' @ t @ '']''))"
| "json_dumps (PTuple xs) =
     (case dumps_list xs of Inl err \<Rightarrow> Inl err | Inr t \<Rightarrow> Inr (''['' @ t @ '']''))"
| "json_dumps (PDict kvs) =
     (case dumps_items kvs of Inl err \<Rightarrow> Inl err | Inr t \<Rightarrow> Inr (''{'' @ t @ ''}''))"
| "json_dumps (PObject n) = Inl TypeError"
| "dumps_list [] = Inr []"
| "dumps_list (x # xs) =
     (case json_dumps x of
        Inl err \<Rightarrow> Inl err
      | Inr t \<Rightarrow>
          (case dumps_list xs of
             Inl err \<Rightarrow> Inl err
           | Inr ts \<Rightarrow> Inr (if xs = [] then t else t @ '', '' @ ts)))"
| "dumps_items [] = Inr []"
| "dumps_items (kv # kvs) =
     (case json_dumps (snd kv) of
        Inl err \<Rightarrow> Inl err
      | Inr t \<Rightarrow>
          (case dumps_items kvs of
             Inl err \<Rightarrow> Inl err
           | Inr ts \<Rightarrow>
               Inr (encode_basestring_ascii (fst kv) @ '': '' @ t @
                    (if kvs = [] then [] else '', '' @ ts))))"

subsection \<open>json.loads\<close>

definition is_ws :: "char \<Rightarrow> bool" where
  "is_ws c = (c = CHR '' '' \<or> c = CHR 0x09 \<or> c = CHR 0x0A \<or> c = CHR 0x0D)"

definition skip_ws :: "string \<Rightarrow> string" where
  "skip_ws s = dropWhile is_ws s"

definition is_digit :: "char \<Rightarrow> bool" where
  "is_digit c = ((48 :: nat) \<le> of_char c \<and> (of_char c :: nat) \<le> 57)"

definition hexval :: "char \<Rightarrow> nat option" where
  "hexval c =
     (let n = of_char c :: nat in
      if 48 \<le> n \<and> n \<le> 57 then Some (n - 48)
      else if 97 \<le> n \<and> n \<le> 102 then Some (n - 87)
      else if 65 \<le> n \<and> n \<le> 70 then Some (n - 55)
      else None)"

definition decode_uXXXX :: "char \<Rightarrow> char \<Rightarrow> char \<Rightarrow> char \<Rightarrow> nat option" where
  "decode_uXXXX a b c d =
     (case (hexval a, hexval b, hexval c, hexval d) of
        (Some x3, Some x2, Some x1, Some x0) \<Rightarrow> Some (x3 * 4096 + x2 * 256 + x1 * 16 + x0)
      | _ \<Rightarrow> None)"

definition backslash :: "char \<Rightarrow> char option" where
  "backslash c =
     (if c = CHR 0x22 then Some (CHR 0x22)
      else if c = CHR 0x5C then Some (CHR 0x5C)
      else if c = CHR ''/'' then Some (CHR ''/'')
      else if c = CHR ''b'' then Some (CHR 0x08)
      else if c = CHR ''f'' then Some (CHR 0x0C)
      else if c = CHR ''n'' then Some (CHR 0x0A)
      else if c = CHR ''r'' then Some (CHR 0x0D)
      else if c = CHR ''t'' then Some (CHR 0x09)
      else None)"

fun scanstring :: "string \<Rightarrow> string \<Rightarrow> error + (string \<times> string)" where
  "scanstring [] acc = Inl JSONDecodeError"
| "scanstring (c # cs) acc =
     (if c = CHR 0x22 then Inr (acc, cs)
      else if c = CHR 0x5C then
        (case cs of
           [] \<Rightarrow> Inl JSONDecodeError
         | esc # cs' \<Rightarrow>
             if esc = CHR ''u'' then
               (case cs' of
                  a # b # c # d # r \<Rightarrow>
                    (case decode_uXXXX a b c d of
                       None \<Rightarrow> Inl JSONDecodeError
                     | Some uni \<Rightarrow>
                         if uni < 256 then scanstring r (acc @ [char_of uni])
                         else Inl OutOfModel)
                | _ \<Rightarrow> Inl JSONDecodeError)
             else
               (case backslash esc of
                  None \<Rightarrow> Inl JSONDecodeError
                | Some ch \<Rightarrow> scanstring cs' (acc @ [ch])))
      else if (of_char c :: nat) < 0x20 then Inl JSONDecodeError
      else scanstring cs (acc @ [c]))"

definition match_int :: "string \<Rightarrow> (string \<times> string) option" where
  "match_int s =
     (let neg = (case s of [] \<Rightarrow> False | c # _ \<Rightarrow> c = CHR ''-'');
          s1 = (if neg then tl s else s);
          sign = (if neg then ''-'' else [])
      in case s1 of
           [] \<Rightarrow> None
         | c # r \<Rightarrow>
             if c = CHR ''0'' then Some (sign @ [c], r)
             else if is_digit c then
               Some (sign @ c # takeWhile is_digit r, dropWhile is_digit r)
             else None)"

definition has_frac :: "string \<Rightarrow> bool" where
  "has_frac s = (case s of c # d # _ \<Rightarrow> c = CHR ''.'' \<and> is_digit d | _ \<Rightarrow> False)"

definition has_exp :: "string \<Rightarrow> bool" where
  "has_exp s =
     (case s of
        [] \<Rightarrow> False
      | c # r \<Rightarrow>
          (c = CHR ''e'' \<or> c = CHR ''E'') \<and>
          (case r of
             [] \<Rightarrow> False
           | d # r' \<Rightarrow>
               is_digit d \<or>
               ((d = CHR ''+'' \<or> d = CHR ''-'') \<and>
                (case r' of [] \<Rightarrow> False | x # _ \<Rightarrow> is_digit x))))"

definition digits_val :: "string \<Rightarrow> nat" where
  "digits_val ds = foldl (\<lambda>a c. 10 * a + (of_char c - 48)) 0 ds"

definition int_of_str :: "string \<Rightarrow> int" where
  "int_of_str s =
     (case s of
        [] \<Rightarrow> 0
      | c # r \<Rightarrow> if c = CHR ''-'' then - int (digits_val r) else int (digits_val s))"

definition is_prefix :: "string \<Rightarrow> string \<Rightarrow> bool" where
  "is_prefix p s = (take (length p) s = p)"

definition dict_of_pairs :: "(string \<times> pyval) list \<Rightarrow> (string \<times> pyval) list" where
  "dict_of_pairs ps = foldl (\<lambda>d kv. AList.update (fst kv) (snd kv) d) [] ps"

function (sequential) scan_once :: "nat \<Rightarrow> string \<Rightarrow> error + (pyval \<times> string)"
  and array_loop :: "nat \<Rightarrow> string \<Rightarrow> pyval list \<Rightarrow> error + (pyval \<times> string)"
  and object_loop ::
    "nat \<Rightarrow> string \<Rightarrow> (string \<times> pyval) list \<Rightarrow> error + (pyval \<times> string)"
where
  "scan_once 0 s = Inl OutOfFuel"
| "scan_once (Suc n) [] = Inl JSONDecodeError"
| "scan_once (Suc n) (c # cs) =
     (if c = CHR 0x22 then
        (case scanstring cs [] of Inl err \<Rightarrow> Inl err | Inr (str, r) \<Rightarrow> Inr (PStr str, r))
      else if c = CHR ''{'' then
        (case skip_ws cs of
           [] \<Rightarrow> Inl JSONDecodeError
         | d # r \<Rightarrow>
             if d = CHR ''}'' then Inr (PDict [], r)
             else if d = CHR 0x22 then object_loop n r []
             else Inl JSONDecodeError)
      else if c = CHR ''['' then
        (case skip_ws cs of
           [] \<Rightarrow> array_loop n [] []
         | d # r \<Rightarrow> if d = CHR '']'' then Inr (PList [], r) else array_loop n (d # r) [])
      else if is_prefix ''null'' (c # cs) then Inr (PNone, drop 4 (c # cs))
      else if is_prefix ''true'' (c # cs) then Inr (PBool True, drop 4 (c # cs))
      else if is_prefix ''false'' (c # cs) then Inr (PBool False, drop 5 (c # cs))
      else
        (case match_int (c # cs) of
           Some (ds, r) \<Rightarrow>
             if has_frac r \<or> has_exp r then Inl OutOfModel else Inr (PInt (int_of_str ds), r)
         | None \<Rightarrow>
             if is_prefix ''NaN'' (c # cs) \<or> is_prefix ''Infinity'' (c # cs)
                \<or> is_prefix ''-Infinity'' (c # cs)
             then Inl OutOfModel
             else Inl JSONDecodeError))"
| "array_loop 0 s vs = Inl OutOfFuel"
| "array_loop (Suc n) s vs =
     (case scan_once n s of
        Inl err \<Rightarrow> Inl err
      | Inr (v, r) \<Rightarrow>
          (case skip_ws r of
             [] \<Rightarrow> Inl JSONDecodeError
           | d # r' \<Rightarrow>
               if d = CHR '']'' then Inr (PList (vs @ [v]), r')
               else if d \<noteq> CHR '','' then Inl JSONDecodeError
               else array_loop n (skip_ws r') (vs @ [v])))"
| "object_loop 0 s ps = Inl OutOfFuel"
| "object_loop (Suc n) s ps =
     (case scanstring s [] of
        Inl err \<Rightarrow> Inl err
      | Inr (k, r) \<Rightarrow>
          (case skip_ws r of
             [] \<Rightarrow> Inl JSONDecodeError
           | d # r' \<Rightarrow>
               if d \<noteq> CHR '':'' then Inl JSONDecodeError
               else
                 (case scan_once n (skip_ws r') of
                    Inl err \<Rightarrow> Inl err
                  | Inr (v, r2) \<Rightarrow>
                      (case skip_ws r2 of
                         [] \<Rightarrow> Inl JSONDecodeError
                       | d2 # r3 \<Rightarrow>
                           if d2 = CHR ''}'' then Inr (PDict (dict_of_pairs (ps @ [(k, v)])), r3)
                           else if d2 \<noteq> CHR '','' then Inl JSONDecodeError
                           else
                             (case skip_ws r3 of
                                [] \<Rightarrow> Inl JSONDecodeError
                              | d3 # r4 \<Rightarrow>
                                  if d3 \<noteq> CHR 0x22 then Inl JSONDecodeError
                                  else object_loop n r4 (ps @ [(k, v)]))))))"
  by pat_completeness auto
termination
  by (relation "measure (\<lambda>x. case x of Inl (n, _) \<Rightarrow> n | Inr (Inl (n, _, _)) \<Rightarrow> n | Inr (Inr (n, _, _)) \<Rightarrow> n)") auto

definition json_loads :: "string \<Rightarrow> error + pyval" where
  "json_loads s =
     (case scan_once (2 * length s + 1) (skip_ws s) of
        Inl err \<Rightarrow> Inl err
      | Inr (v, r) \<Rightarrow> if skip_ws r = [] then Inr v else Inl JSONDecodeError)"

section \<open>The relation endpoint\<close>

datatype level = DEBUG | INFO | WARNING

type_synonym scope = string
type_synonym key = string

datatype call =
    SetLocal scope key "string option"
  | SetRemote scope key "string option"

text \<open>
  The state of one endpoint, as \<open>charms.reactive.RelationBase\<close> presents it to the two
  classes: the scopes of the conversations the instance handles (the scope of a
  conversation is a unit name, \<open>global\<close>, or \<open>None\<close> when it was joined where no remote
  unit is known), the scope a call without \<open>scope=\<close> resolves to in the running hook
  (none when it cannot be determined), the states set per conversation, the
  conversation-local data, the relation settings published to the peer and those received
  from it. \<open>logged\<close> collects the calls of \<open>hookenv.log\<close> and \<open>calls\<close> the transport
  writes, in order.
\<close>

record endpoint =
  conversations :: "scope option list"
  hook_scope :: "scope option"
  flags :: "scope \<Rightarrow> string set"
  local_data :: "scope \<Rightarrow> key \<Rightarrow> string option"
  remote_sent :: "scope \<Rightarrow> key \<Rightarrow> string option"
  remote_recv :: "scope \<Rightarrow> key \<Rightarrow> string option"
  logged :: "(level \<times> string) list"
  calls :: "call list"

type_synonym 'a action = "endpoint \<Rightarrow> (error + 'a) \<times> endpoint"

definition ret :: "'a \<Rightarrow> 'a action" where
  "ret x e = (Inr x, e)"

definition raise :: "error \<Rightarrow> 'a action" where
  "raise err e = (Inl err, e)"

definition bind :: "'a action \<Rightarrow> ('a \<Rightarrow> 'b action) \<Rightarrow> 'b action" where
  "bind m f e = (case m e of (Inl err, e') \<Rightarrow> (Inl err, e') | (Inr x, e') \<Rightarrow> f x e')"

definition seq :: "unit action \<Rightarrow> 'a action \<Rightarrow> 'a action" where
  "seq m n = bind m (\<lambda>_. n)"

definition lift :: "error + 'a \<Rightarrow> 'a action" where
  "lift r e = (r, e)"

subsection \<open>The primitives of RelationBase\<close>

text \<open>
  \<open>RelationBase.conversation(scope)\<close>: the default scope when none is given, and
  \<open>ValueError\<close> when the scope cannot be determined or no conversation has it.
\<close>

definition conversation :: "scope option \<Rightarrow> scope action" where
  "conversation sc e =
     (case (case sc of None \<Rightarrow> hook_scope e | Some x \<Rightarrow> Some x) of
        None \<Rightarrow> (Inl ValueError, e)
      | Some x \<Rightarrow>
          if Some x \<in> set (conversations e) then (Inr x, e) else (Inl ValueError, e))"

definition set_state :: "string \<Rightarrow> unit action" where
  "set_state st =
     bind (conversation None)
       (\<lambda>sc e. (Inr (), e\<lparr>flags := (flags e)(sc := insert st (flags e sc))\<rparr>))"

definition remove_state :: "string \<Rightarrow> unit action" where
  "remove_state st =
     bind (conversation None)
       (\<lambda>sc e. (Inr (), e\<lparr>flags := (flags e)(sc := flags e sc - {st})\<rparr>))"

definition get_remote :: "key \<Rightarrow> (string option) action" where
  "get_remote k = bind (conversation None) (\<lambda>sc e. (Inr (remote_recv e sc k), e))"

definition get_local :: "key \<Rightarrow> scope option \<Rightarrow> (string option) action" where
  "get_local k scp = bind (conversation scp) (\<lambda>sc e. (Inr (local_data e sc k), e))"

definition set_local :: "key \<Rightarrow> string option \<Rightarrow> scope option \<Rightarrow> unit action" where
  "set_local k v scp =
     bind (conversation scp)
       (\<lambda>sc e. (Inr (), e\<lparr>local_data := (local_data e)(sc := (local_data e sc)(k := v)),
                           calls := calls e @ [SetLocal sc k v]\<rparr>))"

definition set_remote :: "key \<Rightarrow> string option \<Rightarrow> scope option \<Rightarrow> unit action" where
  "set_remote k v scp =
     bind (conversation scp)
       (\<lambda>sc e. (Inr (), e\<lparr>remote_sent := (remote_sent e)(sc := (remote_sent e sc)(k := v)),
                           calls := calls e @ [SetRemote sc k v]\<rparr>))"

text \<open>\<open>self.conversations()[0].scope\<close>: indexing an empty list raises \<open>IndexError\<close>.\<close>

definition first_scope :: "(scope option) action" where
  "first_scope e = (case conversations e of [] \<Rightarrow> (Inl IndexError, e) | sc # _ \<Rightarrow> (Inr sc, e))"

definition hookenv_log :: "level \<Rightarrow> string \<Rightarrow> unit action" where
  "hookenv_log lv msg e = (Inr (), e\<lparr>logged := logged e @ [(lv, msg)]\<rparr>)"

abbreviation connected :: string where
  "connected \<equiv> ''{relation_name}.connected''"

abbreviation available :: string where
  "available \<equiv> ''{relation_name}.available''"

abbreviation changed :: string where
  "changed \<equiv> ''{relation_name}.changed''"

subsection \<open>Python equality and subscripting\<close>

text \<open>
  \<open>==\<close> on the modelled values: \<open>bool\<close> is a subclass of \<open>int\<close> (\<open>True == 1\<close>), a
  list never equals a tuple, and two dictionaries are equal when they have the same keys
  with equal values, in any order.
\<close>

fun py_eq :: "pyval \<Rightarrow> pyval \<Rightarrow> bool"
  and py_eq_list :: "pyval list \<Rightarrow> pyval list \<Rightarrow> bool"
  and py_eq_items :: "(string \<times> pyval) list \<Rightarrow> (string \<times> pyval) list \<Rightarrow> bool"
where
  "py_eq PNone w = (w = PNone)"
| "py_eq (PBool a) w =
     (case w of PBool b \<Rightarrow> a = b | PInt j \<Rightarrow> (if a then 1 else 0) = j | _ \<Rightarrow> False)"
| "py_eq (PInt i) w =
     (case w of PBool b \<Rightarrow> i = (if b then 1 else 0) | PInt j \<Rightarrow> i = j | _ \<Rightarrow> False)"
| "py_eq (PStr s) w = (w = PStr s)"
| "py_eq (PList xs) w = (case w of PList ys \<Rightarrow> py_eq_list xs ys | _ \<Rightarrow> False)"
| "py_eq (PTuple xs) w = (case w of PTuple ys \<Rightarrow> py_eq_list xs ys | _ \<Rightarrow> False)"
| "py_eq (PDict a) w =
     (case w of
        PDict b \<Rightarrow> set (map fst a) = set (map fst b) \<and> py_eq_items a b
      | _ \<Rightarrow> False)"
| "py_eq (PObject m) w = (w = PObject m)"
| "py_eq_list [] ys = (ys = [])"
| "py_eq_list (x # xs) ys =
     (case ys of [] \<Rightarrow> False | y # ys' \<Rightarrow> py_eq x y \<and> py_eq_list xs ys')"
| "py_eq_items [] b = True"
| "py_eq_items (kv # a) b =
     ((case map_of b (fst kv) of None \<Rightarrow> False | Some w \<Rightarrow> py_eq (snd kv) w)
      \<and> py_eq_items a b)"

text \<open>\<open>v[k]\<close> for a string \<open>k\<close>.\<close>

definition getitem :: "pyval \<Rightarrow> string \<Rightarrow> error + pyval" where
  "getitem v k =
     (case v of
        PDict d \<Rightarrow> (case map_of d k of None \<Rightarrow> Inl KeyError | Some x \<Rightarrow> Inr x)
      | _ \<Rightarrow> Inl TypeError)"

text \<open>The envelope: \<open>json.dumps({"data": value})\<close> and \<open>json.loads(data)["data"]\<close>.\<close>

definition dumps_envelope :: "pyval \<Rightarrow> error + string" where
  "dumps_envelope v = json_dumps (PDict [(''data'', v)])"

definition loads_envelope :: "string \<Rightarrow> error + pyval" where
  "loads_envelope data =
     (case json_loads data of Inl err \<Rightarrow> Inl err | Inr v \<Rightarrow> getitem v ''data'')"

text \<open>
  \<open>try: m except ValueError: h\<close>. \<open>JSONDecodeError\<close> is a subclass of \<open>ValueError\<close>.
\<close>

definition try_except_ValueError :: "'a action \<Rightarrow> 'a action \<Rightarrow> 'a action" where
  "try_except_ValueError m h e =
     (case m e of
        (Inl err, e') \<Rightarrow>
          if err = ValueError \<or> err = JSONDecodeError then h e' else (Inl err, e')
      | (Inr x, e') \<Rightarrow> (Inr x, e'))"

section \<open>ManilaPluginProvides (provides.py)\<close>

definition provides_update_status :: "unit action" where
  "provides_update_status =
     bind (get_remote ''_authentication_data'') (\<lambda>_.
     seq (hookenv_log DEBUG
            (''ManilaPlugin (subordinate): update_status() called, '' @
             ''self._authentication_data(): {}''))
       (bind (get_remote ''_authentication_data'') (\<lambda>auth.
          if auth \<noteq> None then
            seq (hookenv_log DEBUG ''ManilaPlugin (subordinate): update-status->available'')
              (seq (set_state available) (set_state changed))
          else ret ())))"

definition provides_joined :: "unit action" where
  "provides_joined =
     seq (hookenv_log DEBUG ''ManilaPlugin (subordinate): joined'')
       (seq (set_state connected) provides_update_status)"

definition provides_changed :: "unit action" where
  "provides_changed =
     seq (hookenv_log DEBUG ''ManilaPlugin (subordinate): changed'') provides_update_status"

definition provides_departed :: "unit action" where
  "provides_departed =
     seq (hookenv_log DEBUG ''ManilaPlugin (subordinate): broken, departed'')
       (seq (remove_state changed) (seq (remove_state available) (remove_state connected)))"

definition provides_clear_changed :: "unit action" where
  "provides_clear_changed = remove_state changed"

definition provides_name :: "(string option) action" where
  "provides_name = bind first_scope (\<lambda>scope. get_local ''_name'' scope)"

definition provides_set_name :: "string option \<Rightarrow> unit action" where
  "provides_set_name name =
     bind first_scope (\<lambda>scope.
       seq (set_local ''_name'' name scope) (set_remote ''_name'' name scope))"

definition provides_authentication_data :: "pyval action" where
  "provides_authentication_data =
     bind (get_remote ''_authentication_data'') (\<lambda>data.
       case data of None \<Rightarrow> ret PNone | Some d \<Rightarrow> lift (loads_envelope d))"

definition provides_configuration_data :: "pyval action" where
  "provides_configuration_data =
     bind first_scope (\<lambda>scope.
     bind (get_local ''_configuration_data'' scope) (\<lambda>data.
       case data of
         None \<Rightarrow> ret PNone
       | Some d \<Rightarrow>
           seq (hookenv_log DEBUG ''ManilaPlugin (subordinate): have config: {}'')
             (lift (loads_envelope d))))"

definition provides_set_configuration_data :: "pyval \<Rightarrow> unit action" where
  "provides_set_configuration_data data =
     bind first_scope (\<lambda>scope.
     bind (lift (dumps_envelope data)) (\<lambda>t.
     seq (set_local ''_configuration_data'' (Some t) scope)
       (bind (lift (dumps_envelope data)) (\<lambda>t'.
          set_remote ''_configuration_data'' (Some t') scope))))"

section \<open>ManilaPluginRequires (requires.py)\<close>

text \<open>
  In \<open>update_status\<close> the keyword \<open>level=hookenv.DEBUG\<close> is an argument of
  \<open>format\<close>, not of \<open>hookenv.log\<close>, so the message is logged at the default level
  \<open>INFO\<close>.
\<close>

definition requires_update_status :: "unit action" where
  "requires_update_status =
     bind (get_remote ''_name'') (\<lambda>name.
       if name \<noteq> None then
         bind (get_remote ''_configuration_data'') (\<lambda>conf.
           if conf \<noteq> None then
             bind (get_remote ''_name'') (\<lambda>_.
             bind (get_remote ''_configuration_data'') (\<lambda>_.
             seq (hookenv_log INFO
                    (''ManilaPlugin (principal): have _name:{} and '' @
                     ''_configuration data:{}''))
               (seq (set_state available) (set_state changed))))
           else ret ())
       else ret ())"

definition requires_joined :: "unit action" where
  "requires_joined =
     seq (hookenv_log DEBUG ''ManilaPlugin (principal): joined'')
       (seq (set_state connected) requires_update_status)"

definition requires_changed :: "unit action" where
  "requires_changed =
     seq (hookenv_log DEBUG ''ManilaPlugin (principal): changed'') requires_update_status"

definition requires_departed :: "unit action" where
  "requires_departed =
     seq (hookenv_log DEBUG ''ManilaPlugin (principal): broken, departed'')
       (seq (remove_state connected) (seq (remove_state available) (remove_state changed)))"

definition requires_clear_changed :: "unit action" where
  "requires_clear_changed = remove_state changed"

definition requires_name :: "(string option) action" where
  "requires_name = get_remote ''_name''"

definition requires_authentication_data :: "pyval action" where
  "requires_authentication_data =
     bind (try_except_ValueError
             (bind first_scope (\<lambda>scope. get_local ''_authentication_data'' scope))
             (ret None))
       (\<lambda>data. case data of None \<Rightarrow> ret PNone | Some d \<Rightarrow> lift (loads_envelope d))"

definition expected_keys :: "string set" where
  "expected_keys =
     {''username'', ''password'', ''project_domain_id'', ''project_name'',
      ''user_domain_id'', ''auth_uri'', ''auth_url'', ''auth_type''}"

text \<open>\<open>all([v == value[k] for k, v in existing_auth.items()])\<close>\<close>

fun all_values_equal ::
  "(string \<times> pyval) list \<Rightarrow> (string \<times> pyval) list \<Rightarrow> error + bool" where
  "all_values_equal [] val = Inr True"
| "all_values_equal (kv # items) val =
     (case map_of val (fst kv) of
        None \<Rightarrow> Inl KeyError
      | Some w \<Rightarrow>
          (case all_values_equal items val of
             Inl err \<Rightarrow> Inl err
           | Inr b \<Rightarrow> Inr (py_eq (snd kv) w \<and> b)))"

text \<open>
  \<open>existing_auth.keys() == value.keys() and all([...])\<close>, for the decoded payload
  \<open>existing_auth\<close> and the items of the dictionary \<open>value\<close>.
\<close>

definition unchanged :: "pyval \<Rightarrow> (string \<times> pyval) list \<Rightarrow> error + bool" where
  "unchanged existing_auth val =
     (case existing_auth of
        PDict ex \<Rightarrow>
          if set (map fst ex) = set (map fst val) then all_values_equal ex val else Inr False
      | _ \<Rightarrow> Inl AttributeError)"

definition write_authentication_data ::
  "(string \<times> pyval) list \<Rightarrow> scope option \<Rightarrow> unit action" where
  "write_authentication_data val scope =
     bind (lift (dumps_envelope (PDict val))) (\<lambda>t.
     seq (set_local ''_authentication_data'' (Some t) scope)
       (bind (lift (dumps_envelope (PDict val))) (\<lambda>t'.
          set_remote ''_authentication_data'' (Some t') scope)))"

text \<open>The loop over \<open>self.conversations()\<close>; \<open>continue\<close> is the recursive call alone.\<close>

fun for_conversations :: "scope option list \<Rightarrow> (string \<times> pyval) list \<Rightarrow> unit action" where
  "for_conversations [] val = ret ()"
| "for_conversations (scope # rest) val =
     bind (try_except_ValueError (get_local ''_authentication_data'' scope) (ret None))
       (\<lambda>existing_auth_data.
          case existing_auth_data of
            None \<Rightarrow> seq (write_authentication_data val scope) (for_conversations rest val)
          | Some d \<Rightarrow>
              bind (lift (loads_envelope d)) (\<lambda>existing_auth.
              bind (lift (unchanged existing_auth val)) (\<lambda>same.
                if same then for_conversations rest val
                else seq (write_authentication_data val scope)
                       (for_conversations rest val))))"

definition requires_set_authentication_data :: "pyval \<Rightarrow> unit action" where
  "requires_set_authentication_data v =
     seq (hookenv_log DEBUG ''ManilaPlugin (principal) Setting authentication data:{}'')
       (case v of
          PDict val \<Rightarrow>
            seq (if set (map fst val) - expected_keys \<noteq> {}
                    \<or> expected_keys - set (map fst val) \<noteq> {}
                 then hookenv_log WARNING
                        (''Setting Authentication data; there may be missing or mispelt '' @
                         ''keys: passed: {}'')
                 else ret ())
              (\<lambda>e. for_conversations (conversations e) val e)
        | _ \<Rightarrow> raise AttributeError)"

definition requires_configuration_data :: "pyval action" where
  "requires_configuration_data =
     bind (get_remote ''_configuration_data'') (\<lambda>data.
       case data of
         None \<Rightarrow> ret PNone
       | Some d \<Rightarrow>
           seq (hookenv_log DEBUG ''ManilaPlugin (principal): have configuration_data: {}'')
             (lift (loads_envelope d)))"

section \<open>Runs of an endpoint\<close>

text \<open>
  An endpoint starts with no state set and nothing stored. The dispatcher and the
  transport (the environment) decide which conversations exist, which one the running
  hook belongs to and what the peer has published; every other event is a call of one of
  the methods above, whose state is kept also when it raises.
\<close>

definition initial :: endpoint where
  "initial =
     \<lparr>conversations = [], hook_scope = None, flags = (\<lambda>_. {}),
      local_data = (\<lambda>_ _. None), remote_sent = (\<lambda>_ _. None),
      remote_recv = (\<lambda>_ _. None), logged = [], calls = []\<rparr>"

definition environment ::
  "scope option list \<Rightarrow> scope option \<Rightarrow> (scope \<Rightarrow> key \<Rightarrow> string option) \<Rightarrow> endpoint
     \<Rightarrow> endpoint" where
  "environment convs hook recv e =
     e\<lparr>conversations := convs, hook_scope := hook, remote_recv := recv\<rparr>"

datatype provides_event =
    P_environment "scope option list" "scope option" "scope \<Rightarrow> key \<Rightarrow> string option"
  | P_joined
  | P_changed
  | P_departed
  | P_update_status
  | P_clear_changed
  | P_name
  | P_set_name "string option"
  | P_authentication_data
  | P_configuration_data
  | P_set_configuration_data pyval

fun provides_step :: "provides_event \<Rightarrow> endpoint \<Rightarrow> endpoint" where
  "provides_step (P_environment convs hook recv) e = environment convs hook recv e"
| "provides_step P_joined e = snd (provides_joined e)"
| "provides_step P_changed e = snd (provides_changed e)"
| "provides_step P_departed e = snd (provides_departed e)"
| "provides_step P_update_status e = snd (provides_update_status e)"
| "provides_step P_clear_changed e = snd (provides_clear_changed e)"
| "provides_step P_name e = snd (provides_name e)"
| "provides_step (P_set_name name) e = snd (provides_set_name name e)"
| "provides_step P_authentication_data e = snd (provides_authentication_data e)"
| "provides_step P_configuration_data e = snd (provides_configuration_data e)"
| "provides_step (P_set_configuration_data d) e = snd (provides_set_configuration_data d e)"

fun provides_run :: "provides_event list \<Rightarrow> endpoint \<Rightarrow> endpoint" where
  "provides_run [] e = e"
| "provides_run (ev # evs) e = provides_run evs (provides_step ev e)"

datatype requires_event =
    R_environment "scope option list" "scope option" "scope \<Rightarrow> key \<Rightarrow> string option"
  | R_joined
  | R_changed
  | R_departed
  | R_update_status
  | R_clear_changed
  | R_name
  | R_authentication_data
  | R_set_authentication_data pyval
  | R_configuration_data

fun requires_step :: "requires_event \<Rightarrow> endpoint \<Rightarrow> endpoint" where
  "requires_step (R_environment convs hook recv) e = environment convs hook recv e"
| "requires_step R_joined e = snd (requires_joined e)"
| "requires_step R_changed e = snd (requires_changed e)"
| "requires_step R_departed e = snd (requires_departed e)"
| "requires_step R_update_status e = snd (requires_update_status e)"
| "requires_step R_clear_changed e = snd (requires_clear_changed e)"
| "requires_step R_name e = snd (requires_name e)"
| "requires_step R_authentication_data e = snd (requires_authentication_data e)"
| "requires_step (R_set_authentication_data v) e = snd (requires_set_authentication_data v e)"
| "requires_step R_configuration_data e = snd (requires_configuration_data e)"

fun requires_run :: "requires_event list \<Rightarrow> endpoint \<Rightarrow> endpoint" where
  "requires_run [] e = e"
| "requires_run (ev # evs) e = requires_run evs (requires_step ev e)"

section \<open>Notions used in the properties\<close>

text \<open>An action that leaves a component of the state as it was, whatever it returns.\<close>

definition preserves :: "(endpoint \<Rightarrow> 'f) \<Rightarrow> 'a action \<Rightarrow> bool" where
  "preserves f m = (\<forall>e. f (snd (m e)) = f e)"

text \<open>No conversation has \<open>changed\<close> set without \<open>available\<close>.\<close>

definition flags_ok :: "endpoint \<Rightarrow> bool" where
  "flags_ok e = (\<forall>sc. changed \<in> flags e sc \<longrightarrow> available \<in> flags e sc)"

text \<open>
  The departed/broken hook fires for the conversation \<open>sc\<close> when the event is the
  departed handler and the scope of the running hook is \<open>sc\<close>. The predicates below say
  that this happens nowhere along a run.
\<close>

fun provides_no_departure :: "scope \<Rightarrow> provides_event list \<Rightarrow> endpoint \<Rightarrow> bool" where
  "provides_no_departure sc [] e = True"
| "provides_no_departure sc (ev # evs) e =
     ((case ev of P_departed \<Rightarrow> hook_scope e \<noteq> Some sc | _ \<Rightarrow> True)
      \<and> provides_no_departure sc evs (provides_step ev e))"

fun requires_no_departure :: "scope \<Rightarrow> requires_event list \<Rightarrow> endpoint \<Rightarrow> bool" where
  "requires_no_departure sc [] e = True"
| "requires_no_departure sc (ev # evs) e =
     ((case ev of R_departed \<Rightarrow> hook_scope e \<noteq> Some sc | _ \<Rightarrow> True)
      \<and> requires_no_departure sc evs (requires_step ev e))"

text \<open>The events that are neither the acknowledgment nor the departed/broken hook.\<close>

fun provides_keeps_changed :: "provides_event \<Rightarrow> bool" where
  "provides_keeps_changed P_clear_changed = False"
| "provides_keeps_changed P_departed = False"
| "provides_keeps_changed _ = True"

fun requires_keeps_changed :: "requires_event \<Rightarrow> bool" where
  "requires_keeps_changed R_clear_changed = False"
| "requires_keeps_changed R_departed = False"
| "requires_keeps_changed _ = True"

text \<open>
  A trace of transport writes in which every \<open>set_local\<close> is followed at once by the
  \<open>set_remote\<close> of the same value under the same scope and key.
\<close>

fun paired :: "call list \<Rightarrow> bool" where
  "paired [] = True"
| "paired (SetLocal sc k v # SetRemote sc' k' v' # cs) =
     (sc = sc' \<and> k = k' \<and> v = v' \<and> paired cs)"
| "paired _ = False"

text \<open>A plugin and a principal, each in one conversation, after the peer has joined.\<close>

definition joined_plugin :: endpoint where
  "joined_plugin =
     provides_run
       [P_environment [Some ''global''] (Some ''global'')
          (\<lambda>_ k. if k = ''_authentication_data'' then Some ''{}'' else None),
        P_joined]
       initial"

definition joined_principal :: endpoint where
  "joined_principal =
     requires_run
       [R_environment [Some ''plugin/0''] (Some ''plugin/0'')
          (\<lambda>_ k. if k = ''_name'' then Some ''generic''
                  else if k = ''_configuration_data'' then Some ''{}'' else None),
        R_joined]
       initial"

text \<open>
  The local cache mirrors what was published: the conversation-local data and the
  settings sent to the peer agree, and the transport writes came in pairs.
\<close>

definition mirrored :: "endpoint \<Rightarrow> bool" where
  "mirrored e = (local_data e = remote_sent e \<and> paired (calls e))"

text \<open>An action that neither reads nor writes the log.\<close>

definition log_free :: "'a action \<Rightarrow> bool" where
  "log_free m = (\<forall>e l. m (e\<lparr>logged := l\<rparr>) = (fst (m e), (snd (m e))\<lparr>logged := l\<rparr>))"

text \<open>
  For the loop of the authentication setter: the payload stored for a conversation can be
  read (nothing is stored, or what is stored decodes and compares without an exception),
  and it is stale (nothing is stored, or what is stored is not \<open>unchanged\<close>).
\<close>

definition readable :: "endpoint \<Rightarrow> (string \<times> pyval) list \<Rightarrow> scope \<Rightarrow> bool" where
  "readable e val sc =
     (case local_data e sc ''_authentication_data'' of
        None \<Rightarrow> True
      | Some d \<Rightarrow>
          (case loads_envelope d of
             Inl err \<Rightarrow> False
           | Inr ex \<Rightarrow> (case unchanged ex val of Inl err \<Rightarrow> False | Inr same \<Rightarrow> True)))"

definition stale :: "endpoint \<Rightarrow> (string \<times> pyval) list \<Rightarrow> scope \<Rightarrow> bool" where
  "stale e val sc =
     (case local_data e sc ''_authentication_data'' of
        None \<Rightarrow> True
      | Some d \<Rightarrow>
          (case loads_envelope d of
             Inl err \<Rightarrow> False
           | Inr ex \<Rightarrow> (case unchanged ex val of Inl err \<Rightarrow> False | Inr same \<Rightarrow> \<not> same)))"

text \<open>The state after the authentication payload \<open>t\<close> was written for the scopes in \<open>S\<close>.\<close>

definition written :: "scope list \<Rightarrow> string \<Rightarrow> endpoint \<Rightarrow> endpoint" where
  "written scs t e =
     e\<lparr>local_data :=
         (\<lambda>sc. if sc \<in> set scs then (local_data e sc)(''_authentication_data'' \<mapsto> t)
               else local_data e sc),
       remote_sent :=
         (\<lambda>sc. if sc \<in> set scs then (remote_sent e sc)(''_authentication_data'' \<mapsto> t)
               else remote_sent e sc),
       calls :=
         calls e @
         concat (map (\<lambda>sc. [SetLocal sc ''_authentication_data'' (Some t),
                              SetRemote sc ''_authentication_data'' (Some t)]) scs)\<rparr>"

text \<open>A write: the same value under the same key, locally and to the peer.\<close>

definition write_pair :: "key \<Rightarrow> string option \<Rightarrow> scope \<Rightarrow> endpoint \<Rightarrow> endpoint" where
  "write_pair k v sc e =
     e\<lparr>local_data := (local_data e)(sc := (local_data e sc)(k := v)),
       remote_sent := (remote_sent e)(sc := (remote_sent e sc)(k := v)),
       calls := calls e @ [SetLocal sc k v, SetRemote sc k v]\<rparr>"

text \<open>The end of a turn of the loop that writes: the write, then the rest of the loop.\<close>

definition write_then ::
  "scope option list \<Rightarrow> (string \<times> pyval) list \<Rightarrow> scope option \<Rightarrow> endpoint
     \<Rightarrow> (error + unit) \<times> endpoint" where
  "write_then rest val sc e =
     (case write_authentication_data val sc e of
        (Inl err, e') \<Rightarrow> (Inl err, e')
      | (Inr u, e') \<Rightarrow> for_conversations rest val e')"

text \<open>What is stored and what was written.\<close>

definition stores ::
  "endpoint \<Rightarrow> (scope \<Rightarrow> key \<Rightarrow> string option) \<times> (scope \<Rightarrow> key \<Rightarrow> string option) \<times> call list" where
  "stores e = (local_data e, remote_sent e, calls e)"

text \<open>The envelope of a small configuration, as \<open>json.dumps\<close> writes it.\<close>

definition complete_text :: string where
  "complete_text =
     ''{'' @ [CHR 0x22] @ ''data'' @ [CHR 0x22] @ '': {'' @ [CHR 0x22] @ ''complete'' @
     [CHR 0x22] @ '': true}}''"

text \<open>
  An authentication record without \<open>auth_type\<close>, and its envelope as \<open>json.dumps\<close> writes
  it; \<open>quoted\<close> puts a string of plain characters between double quotes.
\<close>

definition quoted :: "string \<Rightarrow> string" where
  "quoted s = CHR 0x22 # s @ [CHR 0x22]"

definition seven_fields :: "(string \<times> pyval) list" where
  "seven_fields =
     [(''username'', PStr ''manila''), (''password'', PStr ''secret''),
      (''project_domain_id'', PStr ''default''), (''project_name'', PStr ''services''),
      (''user_domain_id'', PStr ''default''), (''auth_uri'', PStr ''http://keystone:5000''),
      (''auth_url'', PStr ''http://keystone:35357'')]"

definition seven_fields_text :: string where
  "seven_fields_text =
     ''{'' @ quoted ''data'' @ '': {'' @
     quoted ''username'' @ '': '' @ quoted ''manila'' @ '', '' @
     quoted ''password'' @ '': '' @ quoted ''secret'' @ '', '' @
     quoted ''project_domain_id'' @ '': '' @ quoted ''default'' @ '', '' @
     quoted ''project_name'' @ '': '' @ quoted ''services'' @ '', '' @
     quoted ''user_domain_id'' @ '': '' @ quoted ''default'' @ '', '' @
     quoted ''auth_uri'' @ '': '' @ quoted ''http://keystone:5000'' @ '', '' @
     quoted ''auth_url'' @ '': '' @ quoted ''http://keystone:35357'' @ ''}}''"

text \<open>
  A principal with two conversations, where what is stored for the first one is not
  JSON; nothing is stored for the second.
\<close>

definition broken_store :: endpoint where
  "broken_store =
     initial\<lparr>conversations := [Some ''plugin/0'', Some ''plugin/1''],
       hook_scope := Some ''plugin/0'',
       local_data := (\<lambda>sc k. if sc = ''plugin/0'' \<and> k = ''_authentication_data''
                              then Some ''not json'' else None)\<rparr>"

text \<open>
  What \<open>json.loads\<close> reads back from the text \<open>json.dumps\<close> writes for a value: tuples
  come back as lists, everything else as it was.
\<close>

fun reloaded :: "pyval \<Rightarrow> pyval"
  and reloaded_list :: "pyval list \<Rightarrow> pyval list"
  and reloaded_items :: "(string \<times> pyval) list \<Rightarrow> (string \<times> pyval) list"
where
  "reloaded PNone = PNone"
| "reloaded (PBool b) = PBool b"
| "reloaded (PInt i) = PInt i"
| "reloaded (PStr s) = PStr s"
| "reloaded (PList xs) = PList (reloaded_list xs)"
| "reloaded (PTuple xs) = PList (reloaded_list xs)"
| "reloaded (PDict kvs) = PDict (dict_of_pairs (reloaded_items kvs))"
| "reloaded (PObject m) = PObject m"
| "reloaded_list [] = []"
| "reloaded_list (x # xs) = reloaded x # reloaded_list xs"
| "reloaded_items [] = []"
| "reloaded_items (kv # kvs) = (fst kv, reloaded (snd kv)) # reloaded_items kvs"

text \<open>
  The values made of JSON's own types: \<open>None\<close>, booleans, integers, strings, lists and
  dictionaries (whose keys are distinct, as in every Python dictionary), with no tuple and
  no object that cannot be serialised.
\<close>

fun json_native :: "pyval \<Rightarrow> bool"
  and json_native_list :: "pyval list \<Rightarrow> bool"
  and json_native_items :: "(string \<times> pyval) list \<Rightarrow> bool"
where
  "json_native PNone = True"
| "json_native (PBool b) = True"
| "json_native (PInt i) = True"
| "json_native (PStr s) = True"
| "json_native (PList xs) = json_native_list xs"
| "json_native (PTuple xs) = False"
| "json_native (PDict kvs) = (distinct (map fst kvs) \<and> json_native_items kvs)"
| "json_native (PObject m) = False"
| "json_native_list [] = True"
| "json_native_list (x # xs) = (json_native x \<and> json_native_list xs)"
| "json_native_items [] = True"
| "json_native_items (kv # kvs) = (json_native (snd kv) \<and> json_native_items kvs)"

text \<open>Fuel that suffices to scan the text of a value.\<close>

fun scan_fuel :: "pyval \<Rightarrow> nat"
  and scan_fuel_list :: "pyval list \<Rightarrow> nat"
  and scan_fuel_items :: "(string \<times> pyval) list \<Rightarrow> nat"
where
  "scan_fuel PNone = 1"
| "scan_fuel (PBool b) = 1"
| "scan_fuel (PInt i) = 1"
| "scan_fuel (PStr s) = 1"
| "scan_fuel (PList xs) = Suc (scan_fuel_list xs)"
| "scan_fuel (PTuple xs) = Suc (scan_fuel_list xs)"
| "scan_fuel (PDict kvs) = Suc (scan_fuel_items kvs)"
| "scan_fuel (PObject m) = 1"
| "scan_fuel_list [] = 0"
| "scan_fuel_list (x # xs) = Suc (max (scan_fuel x) (scan_fuel_list xs))"
| "scan_fuel_items [] = 0"
| "scan_fuel_items (kv # kvs) = Suc (max (scan_fuel (snd kv)) (scan_fuel_items kvs))"

text \<open>What follows a value in a JSON text: nothing, a comma or a closing bracket.\<close>

definition delim :: "string \<Rightarrow> bool" where
  "delim r = (case r of [] \<Rightarrow> True | c # _ \<Rightarrow> c = CHR '','' \<or> c = CHR '']'' \<or> c = CHR ''}'')"

text \<open>A text that begins a value: its first character is no white space and no bracket
  closing an array.\<close>

definition starts_value :: "string \<Rightarrow> bool" where
  "starts_value s = (case s of [] \<Rightarrow> False | c # _ \<Rightarrow> \<not> is_ws c \<and> c \<noteq> CHR '']'')"

text \<open>
  The transport between the endpoints is not part of this repository. Modelled from the
  spec: \<open>setRemote(scope, key, value)\<close> replicates the value to the counterpart
  endpoint's corresponding \<open>getRemote\<close> read. \<open>deliver src ssc dst dsc\<close> is \<open>dst\<close> after
  what \<open>src\<close> published in its conversation \<open>ssc\<close> has reached the conversation \<open>dsc\<close>.
\<close>

definition deliver :: "endpoint \<Rightarrow> scope \<Rightarrow> endpoint \<Rightarrow> scope \<Rightarrow> endpoint" where
  "deliver src ssc dst dsc = dst\<lparr>remote_recv := (remote_recv dst)(dsc := remote_sent src ssc)\<rparr>"

text \<open>
  A configuration in the format of the docstrings, its sections tuples of pairs, and the
  same configuration with lists for the tuples, which is the scenario of the spec.
\<close>

definition tuple_config :: pyval where
  "tuple_config =
     PDict [(''complete'', PBool True),
            (''cinder.conf'', PDict [(''DEFAULT'', PTuple [PTuple [PStr ''a'', PStr ''b'']])])]"

definition list_config :: pyval where
  "list_config =
     PDict [(''complete'', PBool True),
            (''cinder.conf'', PDict [(''DEFAULT'', PList [PList [PStr ''a'', PStr ''b'']])])]"

definition list_config_text :: string where
  "list_config_text =
     ''{'' @ quoted ''data'' @ '': {'' @ quoted ''complete'' @ '': true, '' @
     quoted ''cinder.conf'' @ '': {'' @ quoted ''DEFAULT'' @ '': ['' @ ''['' @ quoted ''a'' @ '', '' @
     quoted ''b'' @ '']'' @ '']}}}''"

text \<open>
  In the words of the spec: the stored payload differs from the value in its key set or
  in at least one key's value.
\<close>

definition differs :: "(string \<times> pyval) list \<Rightarrow> (string \<times> pyval) list \<Rightarrow> bool" where
  "differs ex val =
     (set (map fst ex) \<noteq> set (map fst val) \<or>
      (\<exists>kv \<in> set ex. \<exists>w. map_of val (fst kv) = Some w \<and> \<not> py_eq (snd kv) w))"

text \<open>The transport writes of the payload \<open>t\<close> for the scopes \<open>scs\<close>, one pair for each.\<close>

definition auth_writes :: "scope list \<Rightarrow> string \<Rightarrow> call list" where
  "auth_writes scs t =
     concat (map (\<lambda>sc. [SetLocal sc ''_authentication_data'' (Some t),
                          SetRemote sc ''_authentication_data'' (Some t)]) scs)"

text \<open>A principal with two conversations and nothing stored, and two records that differ
  in the password.\<close>

definition two_peers :: endpoint where
  "two_peers =
     requires_run [R_environment [Some ''plugin/0'', Some ''plugin/1''] (Some ''plugin/0'') (\<lambda>_ _. None)]
       initial"

definition eight_fields :: "(string \<times> pyval) list" where
  "eight_fields = seven_fields @ [(''auth_type'', PStr ''password'')]"

definition eight_fields_changed :: "(string \<times> pyval) list" where
  "eight_fields_changed = (''username'', PStr ''manila'') # (''password'', PStr ''changed'') #
     drop 2 eight_fields"

text \<open>
  The conversation a scope argument stands for, if any: \<open>conversation\<close> returns it, or
  raises \<open>ValueError\<close> when there is none.
\<close>

definition found :: "endpoint \<Rightarrow> scope option \<Rightarrow> scope option" where
  "found e sc =
     (case (case sc of None \<Rightarrow> hook_scope e | Some x \<Rightarrow> Some x) of
        None \<Rightarrow> None
      | Some x \<Rightarrow> if Some x \<in> set (conversations e) then Some x else None)"

text \<open>
  An instance is never left without a conversation. \<open>RelationBase.__init__\<close> has
  \<open>self._conversations = conversations or [Conversation.join(self.scope)]\<close>: when no
  conversation exists, the instance joins the one of its default scope, which is the
  remote unit of the running hook for the principal (\<open>None\<close> outside a relation hook) and
  \<open>global\<close> for the plugin.
\<close>

definition constructed :: "endpoint \<Rightarrow> endpoint" where
  "constructed e = (if conversations e = [] then e\<lparr>conversations := [hook_scope e]\<rparr> else e)"

text \<open>
  Two more principals with the conversations \<open>plugin/0\<close> and \<open>plugin/1\<close>: in the first,
  what is stored for \<open>plugin/1\<close> is the envelope of the number 1, which is no dictionary;
  the second is \<open>broken_store\<close> with the conversations in the other order. And a record
  with a field that \<open>json.dumps\<close> cannot serialise.
\<close>

definition number_payload :: string where
  "number_payload = ''{'' @ quoted ''data'' @ '': 1}''"

definition number_store :: endpoint where
  "number_store =
     initial\<lparr>conversations := [Some ''plugin/0'', Some ''plugin/1''],
       hook_scope := Some ''plugin/0'',
       local_data := (\<lambda>sc k. if sc = ''plugin/1'' \<and> k = ''_authentication_data''
                              then Some number_payload else None)\<rparr>"

definition broken_last :: endpoint where
  "broken_last = broken_store\<lparr>conversations := [Some ''plugin/1'', Some ''plugin/0'']\<rparr>"

definition opaque_fields :: "(string \<times> pyval) list" where
  "opaque_fields = [(''username'', PObject 0)]"

text \<open>The envelopes of the two records, as \<open>json.dumps\<close> writes them.\<close>

definition eight_fields_text :: string where
  "eight_fields_text =
     ''{'' @ quoted ''data'' @ '': {'' @
     quoted ''username'' @ '': '' @ quoted ''manila'' @ '', '' @
     quoted ''password'' @ '': '' @ quoted ''secret'' @ '', '' @
     quoted ''project_domain_id'' @ '': '' @ quoted ''default'' @ '', '' @
     quoted ''project_name'' @ '': '' @ quoted ''services'' @ '', '' @
     quoted ''user_domain_id'' @ '': '' @ quoted ''default'' @ '', '' @
     quoted ''auth_uri'' @ '': '' @ quoted ''http://keystone:5000'' @ '', '' @
     quoted ''auth_url'' @ '': '' @ quoted ''http://keystone:35357'' @ '', '' @
     quoted ''auth_type'' @ '': '' @ quoted ''password'' @ ''}}''"

definition eight_fields_changed_text :: string where
  "eight_fields_changed_text =
     ''{'' @ quoted ''data'' @ '': {'' @
     quoted ''username'' @ '': '' @ quoted ''manila'' @ '', '' @
     quoted ''password'' @ '': '' @ quoted ''changed'' @ '', '' @
     quoted ''project_domain_id'' @ '': '' @ quoted ''default'' @ '', '' @
     quoted ''project_name'' @ '': '' @ quoted ''services'' @ '', '' @
     quoted ''user_domain_id'' @ '': '' @ quoted ''default'' @ '', '' @
     quoted ''auth_uri'' @ '': '' @ quoted ''http://keystone:5000'' @ '', '' @
     quoted ''auth_url'' @ '': '' @ quoted ''http://keystone:35357'' @ '', '' @
     quoted ''auth_type'' @ '': '' @ quoted ''password'' @ ''}}''"

section \<open>Frames: what the operations leave alone\<close>

lemma preservesD: "preserves f m \<Longrightarrow> f (snd (m e)) = f e"
  by (simp add: preserves_def)

lemma preserves_ret: "preserves f (ret x)"
  by (simp add: preserves_def ret_def)

lemma preserves_raise: "preserves f (raise err)"
  by (simp add: preserves_def raise_def)

lemma preserves_lift: "preserves f (lift r)"
  by (simp add: preserves_def lift_def)

lemma preserves_bind:
  assumes "preserves f m" and "\<And>x. preserves f (g x)"
  shows "preserves f (bind m g)"
  using assms
  by (auto simp: preserves_def bind_def split: prod.splits sum.splits) (metis snd_conv)+

lemma preserves_seq: "preserves f m \<Longrightarrow> preserves f n \<Longrightarrow> preserves f (seq m n)"
  by (simp add: seq_def preserves_bind)

lemma preserves_try:
  assumes "preserves f m" and "preserves f h"
  shows "preserves f (try_except_ValueError m h)"
  using assms
  by (auto simp: preserves_def try_except_ValueError_def split: prod.splits sum.splits) (metis snd_conv)+

lemma preserves_if: "preserves f m \<Longrightarrow> preserves f n \<Longrightarrow> preserves f (if b then m else n)"
  by simp

lemma preserves_case_option:
  "preserves f m \<Longrightarrow> (\<And>x. preserves f (g x)) \<Longrightarrow> preserves f (case_option m g v)"
  by (cases v) simp_all

lemma preserves_conversation: "preserves f (conversation sc)"
  by (simp add: preserves_def conversation_def split: option.splits)

lemma preserves_first_scope: "preserves f first_scope"
  by (simp add: preserves_def first_scope_def split: list.splits)

lemma preserves_get_remote: "preserves f (get_remote k)"
  by (auto simp: preserves_def get_remote_def bind_def conversation_def split: option.splits)

lemma preserves_get_local: "preserves f (get_local k sc)"
  by (auto simp: preserves_def get_local_def bind_def conversation_def split: option.splits)

lemma flags_set_local: "preserves flags (set_local k v sc)"
  by (auto simp: preserves_def set_local_def bind_def conversation_def split: option.splits)

lemma flags_set_remote: "preserves flags (set_remote k v sc)"
  by (auto simp: preserves_def set_remote_def bind_def conversation_def split: option.splits)

lemma flags_hookenv_log: "preserves flags (hookenv_log lv msg)"
  by (simp add: preserves_def hookenv_log_def)

lemmas preserves_intros =
  preserves_ret preserves_raise preserves_lift preserves_bind preserves_seq preserves_try
  preserves_if preserves_case_option preserves_conversation preserves_first_scope
  preserves_get_remote preserves_get_local

lemmas flags_intros = preserves_intros flags_set_local flags_set_remote flags_hookenv_log

lemma flags_write_authentication_data: "preserves flags (write_authentication_data val sc)"
  unfolding write_authentication_data_def by (intro flags_intros)

lemma flags_for_conversations: "preserves flags (for_conversations scs val)"
  by (induction scs) (auto intro!: flags_intros flags_write_authentication_data)

lemma flags_requires_set_authentication_data:
  "preserves flags (requires_set_authentication_data v)"
proof -
  have "preserves flags (\<lambda>e. for_conversations (conversations e) val e)" for val
    using flags_for_conversations by (simp add: preserves_def)
  then show ?thesis
    unfolding requires_set_authentication_data_def
    by (cases v) (auto intro!: flags_intros)
qed

lemma flags_getters_setters:
  "preserves flags provides_name"
  "preserves flags (provides_set_name name)"
  "preserves flags provides_authentication_data"
  "preserves flags provides_configuration_data"
  "preserves flags (provides_set_configuration_data d)"
  "preserves flags requires_name"
  "preserves flags requires_authentication_data"
  "preserves flags requires_configuration_data"
  unfolding provides_name_def provides_set_name_def provides_authentication_data_def
    provides_configuration_data_def provides_set_configuration_data_def requires_name_def
    requires_authentication_data_def requires_configuration_data_def
  by (intro flags_intros)+


lemma set_state_eq:
  "set_state st e =
     (case hook_scope e of
        None \<Rightarrow> (Inl ValueError, e)
      | Some sc \<Rightarrow>
          if Some sc \<in> set (conversations e)
          then (Inr (), e\<lparr>flags := (flags e)(sc := insert st (flags e sc))\<rparr>)
          else (Inl ValueError, e))"
  by (simp add: set_state_def bind_def conversation_def split: option.splits)

lemma remove_state_eq:
  "remove_state st e =
     (case hook_scope e of
        None \<Rightarrow> (Inl ValueError, e)
      | Some sc \<Rightarrow>
          if Some sc \<in> set (conversations e)
          then (Inr (), e\<lparr>flags := (flags e)(sc := flags e sc - {st})\<rparr>)
          else (Inl ValueError, e))"
  by (simp add: remove_state_def bind_def conversation_def split: option.splits)

lemma get_remote_eq:
  "get_remote k e =
     (case hook_scope e of
        None \<Rightarrow> (Inl ValueError, e)
      | Some sc \<Rightarrow>
          if Some sc \<in> set (conversations e) then (Inr (remote_recv e sc k), e)
          else (Inl ValueError, e))"
  by (simp add: get_remote_def bind_def conversation_def split: option.splits)

lemmas hook_defs =
  provides_update_status_def provides_joined_def provides_changed_def provides_departed_def
  provides_clear_changed_def requires_update_status_def requires_joined_def
  requires_changed_def requires_departed_def requires_clear_changed_def
  bind_def seq_def ret_def hookenv_log_def set_state_eq remove_state_eq get_remote_eq

text \<open>What the handlers do to the states of the hook's conversation.\<close>

lemma update_status_flags:
  assumes "hook_scope e = Some sc" and "Some sc \<in> set (conversations e)"
  shows "flags (snd (provides_update_status e)) =
         (if remote_recv e sc ''_authentication_data'' \<noteq> None
          then (flags e)(sc := insert changed (insert available (flags e sc)))
          else flags e)"
    and "flags (snd (requires_update_status e)) =
         (if remote_recv e sc ''_name'' \<noteq> None \<and> remote_recv e sc ''_configuration_data'' \<noteq> None
          then (flags e)(sc := insert changed (insert available (flags e sc)))
          else flags e)"
  using assms by (simp_all add: hook_defs)

lemma joined_flags:
  assumes "hook_scope e = Some sc" and "Some sc \<in> set (conversations e)"
  shows "flags (snd (provides_joined e)) =
         (if remote_recv e sc ''_authentication_data'' \<noteq> None
          then (flags e)(sc := insert changed (insert available (insert connected (flags e sc))))
          else (flags e)(sc := insert connected (flags e sc)))"
    and "flags (snd (requires_joined e)) =
         (if remote_recv e sc ''_name'' \<noteq> None \<and> remote_recv e sc ''_configuration_data'' \<noteq> None
          then (flags e)(sc := insert changed (insert available (insert connected (flags e sc))))
          else (flags e)(sc := insert connected (flags e sc)))"
  using assms by (simp_all add: hook_defs)

lemma changed_flags:
  assumes "hook_scope e = Some sc" and "Some sc \<in> set (conversations e)"
  shows "flags (snd (provides_changed e)) =
         (if remote_recv e sc ''_authentication_data'' \<noteq> None
          then (flags e)(sc := insert changed (insert available (flags e sc)))
          else flags e)"
    and "flags (snd (requires_changed e)) =
         (if remote_recv e sc ''_name'' \<noteq> None \<and> remote_recv e sc ''_configuration_data'' \<noteq> None
          then (flags e)(sc := insert changed (insert available (flags e sc)))
          else flags e)"
  using assms by (simp_all add: hook_defs)

lemma minus_three: "A - {x} - {y} - {z} = A - {x, y, z}"
  by auto

lemma departed_eq:
  assumes "hook_scope e = Some sc" and "Some sc \<in> set (conversations e)"
  shows "snd (provides_departed e) =
         e\<lparr>logged := logged e @ [(DEBUG, ''ManilaPlugin (subordinate): broken, departed'')],
           flags := (flags e)(sc := flags e sc - {changed, available, connected})\<rparr>"
    and "snd (requires_departed e) =
         e\<lparr>logged := logged e @ [(DEBUG, ''ManilaPlugin (principal): broken, departed'')],
           flags := (flags e)(sc := flags e sc - {connected, available, changed})\<rparr>"
  using assms by (simp_all add: hook_defs minus_three)

lemma clear_changed_eq:
  assumes "hook_scope e = Some sc" and "Some sc \<in> set (conversations e)"
  shows "snd (provides_clear_changed e) = e\<lparr>flags := (flags e)(sc := flags e sc - {changed})\<rparr>"
    and "snd (requires_clear_changed e) = e\<lparr>flags := (flags e)(sc := flags e sc - {changed})\<rparr>"
  using assms by (simp_all add: hook_defs)

lemma handlers_unresolved:
  assumes "\<not> (\<exists>sc. hook_scope e = Some sc \<and> Some sc \<in> set (conversations e))"
  shows "flags (snd (provides_update_status e)) = flags e"
    and "flags (snd (requires_update_status e)) = flags e"
    and "flags (snd (provides_joined e)) = flags e"
    and "flags (snd (requires_joined e)) = flags e"
    and "flags (snd (provides_changed e)) = flags e"
    and "flags (snd (requires_changed e)) = flags e"
    and "snd (provides_departed e) =
         e\<lparr>logged := logged e @ [(DEBUG, ''ManilaPlugin (subordinate): broken, departed'')]\<rparr>"
    and "snd (requires_departed e) =
         e\<lparr>logged := logged e @ [(DEBUG, ''ManilaPlugin (principal): broken, departed'')]\<rparr>"
    and "snd (provides_clear_changed e) = e"
    and "snd (requires_clear_changed e) = e"
  using assms by (auto simp: hook_defs split: option.splits)


lemma resolved_cases:
  obtains (resolved) sc where "hook_scope e = Some sc" and "Some sc \<in> set (conversations e)"
  | (unresolved) "\<not> (\<exists>sc. hook_scope e = Some sc \<and> Some sc \<in> set (conversations e))"
  by blast

lemma flags_ok_preserved: "preserves flags m \<Longrightarrow> flags_ok e \<Longrightarrow> flags_ok (snd (m e))"
  by (simp add: flags_ok_def preserves_def)

lemma flags_ok_handlers_conj:
  assumes "flags_ok e"
  shows "flags_ok (snd (provides_update_status e)) \<and>
    flags_ok (snd (provides_joined e)) \<and> flags_ok (snd (provides_changed e)) \<and>
    flags_ok (snd (provides_departed e)) \<and> flags_ok (snd (provides_clear_changed e)) \<and>
    flags_ok (snd (requires_update_status e)) \<and> flags_ok (snd (requires_joined e)) \<and>
    flags_ok (snd (requires_changed e)) \<and> flags_ok (snd (requires_departed e)) \<and>
    flags_ok (snd (requires_clear_changed e))"
proof (cases e rule: resolved_cases)
  case (resolved sc)
  then show ?thesis
    using assms
    by (simp add: flags_ok_def update_status_flags joined_flags changed_flags departed_eq
        clear_changed_eq)
next
  case unresolved
  then show ?thesis
    using assms by (simp add: flags_ok_def handlers_unresolved)
qed

lemmas flags_ok_handlers =
  flags_ok_handlers_conj [THEN conjunct1]
  flags_ok_handlers_conj [THEN conjunct2, THEN conjunct1]
  flags_ok_handlers_conj [THEN conjunct2, THEN conjunct2, THEN conjunct1]
  flags_ok_handlers_conj [THEN conjunct2, THEN conjunct2, THEN conjunct2, THEN conjunct1]
  flags_ok_handlers_conj [THEN conjunct2, THEN conjunct2, THEN conjunct2, THEN conjunct2,
    THEN conjunct1]
  flags_ok_handlers_conj [THEN conjunct2, THEN conjunct2, THEN conjunct2, THEN conjunct2,
    THEN conjunct2, THEN conjunct1]
  flags_ok_handlers_conj [THEN conjunct2, THEN conjunct2, THEN conjunct2, THEN conjunct2,
    THEN conjunct2, THEN conjunct2, THEN conjunct1]
  flags_ok_handlers_conj [THEN conjunct2, THEN conjunct2, THEN conjunct2, THEN conjunct2,
    THEN conjunct2, THEN conjunct2, THEN conjunct2, THEN conjunct1]
  flags_ok_handlers_conj [THEN conjunct2, THEN conjunct2, THEN conjunct2, THEN conjunct2,
    THEN conjunct2, THEN conjunct2, THEN conjunct2, THEN conjunct2, THEN conjunct1]
  flags_ok_handlers_conj [THEN conjunct2, THEN conjunct2, THEN conjunct2, THEN conjunct2,
    THEN conjunct2, THEN conjunct2, THEN conjunct2, THEN conjunct2, THEN conjunct2]

lemma flags_ok_provides_step: "flags_ok e \<Longrightarrow> flags_ok (provides_step ev e)"
  by (cases ev) (simp_all add: flags_ok_handlers flags_ok_preserved flags_getters_setters,
      simp add: flags_ok_def environment_def)

lemma flags_ok_requires_step: "flags_ok e \<Longrightarrow> flags_ok (requires_step ev e)"
  by (cases ev) (simp_all add: flags_ok_handlers flags_ok_preserved flags_getters_setters
      flags_requires_set_authentication_data, simp add: flags_ok_def environment_def)

lemma flags_ok_provides_run: "flags_ok e \<Longrightarrow> flags_ok (provides_run evs e)"
  by (induction evs arbitrary: e) (simp_all add: flags_ok_provides_step)

lemma flags_ok_requires_run: "flags_ok e \<Longrightarrow> flags_ok (requires_run evs e)"
  by (induction evs arbitrary: e) (simp_all add: flags_ok_requires_step)

lemma flags_ok_initial: "flags_ok initial"
  by (simp add: flags_ok_def initial_def)

text \<open>An operation that sets \<open>changed\<close> leaves \<open>available\<close> set with it, from any state.\<close>

lemma provides_step_sets_both:
  assumes "changed \<notin> flags e sc" and "changed \<in> flags (provides_step ev e) sc"
  shows "available \<in> flags (provides_step ev e) sc"
proof (cases ev)
  case (P_environment convs hook recv)
  with assms show ?thesis by (simp add: environment_def)
next
  case P_joined
  with assms show ?thesis
    by (cases e rule: resolved_cases)
       (auto simp: joined_flags handlers_unresolved split: if_splits)
next
  case P_changed
  with assms show ?thesis
    by (cases e rule: resolved_cases)
       (auto simp: changed_flags handlers_unresolved split: if_splits)
next
  case P_departed
  with assms show ?thesis
    by (cases e rule: resolved_cases)
       (auto simp: departed_eq handlers_unresolved split: if_splits)
next
  case P_update_status
  with assms show ?thesis
    by (cases e rule: resolved_cases)
       (auto simp: update_status_flags handlers_unresolved split: if_splits)
next
  case P_clear_changed
  with assms show ?thesis
    by (cases e rule: resolved_cases)
       (auto simp: clear_changed_eq handlers_unresolved split: if_splits)
qed (use assms in \<open>simp_all add: flags_getters_setters [THEN preservesD]\<close>)

lemma requires_step_sets_both:
  assumes "changed \<notin> flags e sc" and "changed \<in> flags (requires_step ev e) sc"
  shows "available \<in> flags (requires_step ev e) sc"
proof (cases ev)
  case (R_environment convs hook recv)
  with assms show ?thesis by (simp add: environment_def)
next
  case R_joined
  with assms show ?thesis
    by (cases e rule: resolved_cases)
       (auto simp: joined_flags handlers_unresolved split: if_splits)
next
  case R_changed
  with assms show ?thesis
    by (cases e rule: resolved_cases)
       (auto simp: changed_flags handlers_unresolved split: if_splits)
next
  case R_departed
  with assms show ?thesis
    by (cases e rule: resolved_cases)
       (auto simp: departed_eq handlers_unresolved split: if_splits)
next
  case R_update_status
  with assms show ?thesis
    by (cases e rule: resolved_cases)
       (auto simp: update_status_flags handlers_unresolved split: if_splits)
next
  case R_clear_changed
  with assms show ?thesis
    by (cases e rule: resolved_cases)
       (auto simp: clear_changed_eq handlers_unresolved split: if_splits)
qed (use assms in \<open>simp_all add: flags_getters_setters [THEN preservesD]
      flags_requires_set_authentication_data [THEN preservesD]\<close>)

lemma joined_plugin_eval:
  "hook_scope joined_plugin = Some ''global''"
  "conversations joined_plugin = [Some ''global'']"
  "flags joined_plugin ''global'' = {changed, available, connected}"
  by (simp_all add: joined_plugin_def environment_def initial_def hook_defs)

lemma joined_principal_eval:
  "hook_scope joined_principal = Some ''plugin/0''"
  "conversations joined_principal = [Some ''plugin/0'']"
  "flags joined_principal ''plugin/0'' = {changed, available, connected}"
  by (simp_all add: joined_principal_def environment_def initial_def hook_defs)

text \<open>
  Claim C2. In every state either endpoint reaches from the initial state, by any sequence
  of environment changes, hooks (joined, changed, departed/broken), \<open>update_status\<close>,
  \<open>clear_changed\<close>, getters and setters, a conversation with \<open>changed\<close> set has
  \<open>available\<close> set. And from any state whatsoever, an operation after which \<open>changed\<close>
  is set where it was not before leaves \<open>available\<close> set as well.
\<close>

theorem changed_implies_available:
  "flags_ok (provides_run pevs initial) \<and> flags_ok (requires_run rqevs initial) \<and>
   (changed \<notin> flags e sc \<and> changed \<in> flags (provides_step pev e) sc
      \<longrightarrow> available \<in> flags (provides_step pev e) sc) \<and>
   (changed \<notin> flags e sc \<and> changed \<in> flags (requires_step rqev e) sc
      \<longrightarrow> available \<in> flags (requires_step rqev e) sc)"
  using provides_step_sets_both requires_step_sets_both
  by (simp add: flags_ok_provides_run flags_ok_requires_run flags_ok_initial)

theorem changed_implies_available_witness:
  "changed \<in> flags joined_plugin ''global'' \<and> available \<in> flags joined_plugin ''global'' \<and>
   changed \<in> flags joined_principal ''plugin/0'' \<and>
   available \<in> flags joined_principal ''plugin/0'' \<and>
   changed \<notin> flags initial ''global'' \<and>
   changed \<in> flags (provides_step P_update_status
      (environment [Some ''global''] (Some ''global'') (\<lambda>_ _. Some ''{}'') initial)) ''global'' \<and>
   available \<in> flags (provides_step P_update_status
      (environment [Some ''global''] (Some ''global'') (\<lambda>_ _. Some ''{}'') initial)) ''global'' \<and>
   changed \<in> flags (requires_step R_update_status
      (environment [Some ''global''] (Some ''global'') (\<lambda>_ _. Some ''{}'') initial)) ''global'' \<and>
   available \<in> flags (requires_step R_update_status
      (environment [Some ''global''] (Some ''global'') (\<lambda>_ _. Some ''{}'') initial)) ''global''"
proof -
  let ?pevs = "[P_environment [Some ''global''] (Some ''global'')
          (\<lambda>_ k. if k = ''_authentication_data'' then Some ''{}'' else None), P_joined]"
  let ?rqevs = "[R_environment [Some ''plugin/0''] (Some ''plugin/0'')
          (\<lambda>_ k. if k = ''_name'' then Some ''generic''
                  else if k = ''_configuration_data'' then Some ''{}'' else None), R_joined]"
  let ?e = "environment [Some ''global''] (Some ''global'') (\<lambda>_ _. Some ''{}'') initial"
  have c: "changed \<in> flags joined_plugin ''global''"
    "changed \<in> flags joined_principal ''plugin/0''"
    by (simp_all add: joined_plugin_eval joined_principal_eval)
  have d: "changed \<notin> flags ?e ''global''"
    "changed \<in> flags (provides_step P_update_status ?e) ''global''"
    "changed \<in> flags (requires_step R_update_status ?e) ''global''"
    by (simp_all add: environment_def initial_def hook_defs)
  have i: "changed \<notin> flags initial ''global''"
    by (simp add: initial_def)
  from changed_implies_available [of ?pevs ?rqevs ?e "''global''" P_update_status R_update_status]
  show ?thesis
    using c d i unfolding flags_ok_def joined_plugin_def [symmetric] joined_principal_def [symmetric]
    by blast
qed


lemma available_provides_step:
  assumes "available \<in> flags e sc"
    and "case ev of P_departed \<Rightarrow> hook_scope e \<noteq> Some sc | _ \<Rightarrow> True"
  shows "available \<in> flags (provides_step ev e) sc"
proof (cases ev)
  case (P_environment convs hook recv)
  with assms show ?thesis by (simp add: environment_def)
next
  case P_joined
  with assms show ?thesis
    by (cases e rule: resolved_cases) (auto simp: joined_flags handlers_unresolved)
next
  case P_changed
  with assms show ?thesis
    by (cases e rule: resolved_cases) (auto simp: changed_flags handlers_unresolved)
next
  case P_departed
  with assms show ?thesis
    by (cases e rule: resolved_cases) (auto simp: departed_eq handlers_unresolved)
next
  case P_update_status
  with assms show ?thesis
    by (cases e rule: resolved_cases) (auto simp: update_status_flags handlers_unresolved)
next
  case P_clear_changed
  with assms show ?thesis
    by (cases e rule: resolved_cases) (auto simp: clear_changed_eq handlers_unresolved)
qed (use assms in \<open>simp_all add: flags_getters_setters [THEN preservesD]\<close>)

lemma available_requires_step:
  assumes "available \<in> flags e sc"
    and "case ev of R_departed \<Rightarrow> hook_scope e \<noteq> Some sc | _ \<Rightarrow> True"
  shows "available \<in> flags (requires_step ev e) sc"
proof (cases ev)
  case (R_environment convs hook recv)
  with assms show ?thesis by (simp add: environment_def)
next
  case R_joined
  with assms show ?thesis
    by (cases e rule: resolved_cases) (auto simp: joined_flags handlers_unresolved)
next
  case R_changed
  with assms show ?thesis
    by (cases e rule: resolved_cases) (auto simp: changed_flags handlers_unresolved)
next
  case R_departed
  with assms show ?thesis
    by (cases e rule: resolved_cases) (auto simp: departed_eq handlers_unresolved)
next
  case R_update_status
  with assms show ?thesis
    by (cases e rule: resolved_cases) (auto simp: update_status_flags handlers_unresolved)
next
  case R_clear_changed
  with assms show ?thesis
    by (cases e rule: resolved_cases) (auto simp: clear_changed_eq handlers_unresolved)
qed (use assms in \<open>simp_all add: flags_getters_setters [THEN preservesD]
      flags_requires_set_authentication_data [THEN preservesD]\<close>)

lemma available_provides_run:
  "available \<in> flags e sc \<Longrightarrow> provides_no_departure sc evs e \<Longrightarrow>
   available \<in> flags (provides_run evs e) sc"
  by (induction evs arbitrary: e) (simp_all add: available_provides_step)

lemma available_requires_run:
  "available \<in> flags e sc \<Longrightarrow> requires_no_departure sc evs e \<Longrightarrow>
   available \<in> flags (requires_run evs e) sc"
  by (induction evs arbitrary: e) (simp_all add: available_requires_step)

text \<open>
  Claim C4. Once \<open>available\<close> is set for a conversation it stays set along every run
  of either endpoint in which the departed/broken hook does not fire for that conversation:
  changed and repeated joined hooks, \<open>update_status\<close>, \<open>clear_changed\<close>, getters,
  setters, environment changes and the departure of other conversations all keep it.
\<close>

theorem available_until_departed:
  "(available \<in> flags e sc \<and> provides_no_departure sc pevs e
      \<longrightarrow> available \<in> flags (provides_run pevs e) sc) \<and>
   (available \<in> flags e sc \<and> requires_no_departure sc rqevs e
      \<longrightarrow> available \<in> flags (requires_run rqevs e) sc)"
  by (simp add: available_provides_run available_requires_run)


lemma env_set_state: "preserves hook_scope (set_state st)" "preserves conversations (set_state st)"
  by (simp_all add: preserves_def set_state_eq split: option.splits)

lemma env_remove_state:
  "preserves hook_scope (remove_state st)" "preserves conversations (remove_state st)"
  by (simp_all add: preserves_def remove_state_eq split: option.splits)

lemma env_set_local:
  "preserves hook_scope (set_local k v sc)" "preserves conversations (set_local k v sc)"
  by (auto simp: preserves_def set_local_def bind_def conversation_def split: option.splits)

lemma env_set_remote:
  "preserves hook_scope (set_remote k v sc)" "preserves conversations (set_remote k v sc)"
  by (auto simp: preserves_def set_remote_def bind_def conversation_def split: option.splits)

lemma env_hookenv_log:
  "preserves hook_scope (hookenv_log lv msg)" "preserves conversations (hookenv_log lv msg)"
  by (simp_all add: preserves_def hookenv_log_def)

lemmas env_intros =
  preserves_intros env_set_state env_remove_state env_set_local env_set_remote env_hookenv_log

lemma env_for_conversations:
  "preserves hook_scope (for_conversations scs val)"
  "preserves conversations (for_conversations scs val)"
  by (induction scs) (auto simp: write_authentication_data_def intro!: env_intros)

lemma env_requires_set_authentication_data:
  "preserves hook_scope (requires_set_authentication_data v)"
  "preserves conversations (requires_set_authentication_data v)"
proof -
  have "preserves hook_scope (\<lambda>e. for_conversations (conversations e) val e)"
    "preserves conversations (\<lambda>e. for_conversations (conversations e) val e)" for val
    using env_for_conversations by (simp_all add: preserves_def)
  then show "preserves hook_scope (requires_set_authentication_data v)"
    "preserves conversations (requires_set_authentication_data v)"
    unfolding requires_set_authentication_data_def
    by (cases v; auto intro!: env_intros)+
qed


lemma env_provides_ops:
  "preserves hook_scope provides_update_status" "preserves conversations provides_update_status"
  "preserves hook_scope provides_joined" "preserves conversations provides_joined"
  "preserves hook_scope provides_changed" "preserves conversations provides_changed"
  "preserves hook_scope provides_departed" "preserves conversations provides_departed"
  "preserves hook_scope provides_clear_changed" "preserves conversations provides_clear_changed"
  "preserves hook_scope provides_name" "preserves conversations provides_name"
  "preserves hook_scope (provides_set_name name)"
  "preserves conversations (provides_set_name name)"
  "preserves hook_scope provides_authentication_data"
  "preserves conversations provides_authentication_data"
  "preserves hook_scope provides_configuration_data"
  "preserves conversations provides_configuration_data"
  "preserves hook_scope (provides_set_configuration_data d)"
  "preserves conversations (provides_set_configuration_data d)"
  unfolding provides_joined_def provides_changed_def provides_departed_def
    provides_update_status_def provides_clear_changed_def provides_name_def
    provides_set_name_def provides_authentication_data_def provides_configuration_data_def
    provides_set_configuration_data_def
  by (intro env_intros)+

lemma env_requires_ops:
  "preserves hook_scope requires_update_status" "preserves conversations requires_update_status"
  "preserves hook_scope requires_joined" "preserves conversations requires_joined"
  "preserves hook_scope requires_changed" "preserves conversations requires_changed"
  "preserves hook_scope requires_departed" "preserves conversations requires_departed"
  "preserves hook_scope requires_clear_changed" "preserves conversations requires_clear_changed"
  "preserves hook_scope requires_name" "preserves conversations requires_name"
  "preserves hook_scope requires_authentication_data"
  "preserves conversations requires_authentication_data"
  "preserves hook_scope requires_configuration_data"
  "preserves conversations requires_configuration_data"
  unfolding requires_joined_def requires_changed_def requires_departed_def
    requires_update_status_def requires_clear_changed_def requires_name_def
    requires_authentication_data_def requires_configuration_data_def
  by (intro env_intros)+

lemma env_provides_step:
  "hook_scope (provides_step ev e) =
     (case ev of P_environment convs hook recv \<Rightarrow> hook | _ \<Rightarrow> hook_scope e)"
  "conversations (provides_step ev e) =
     (case ev of P_environment convs hook recv \<Rightarrow> convs | _ \<Rightarrow> conversations e)"
  by (cases ev; simp add: environment_def env_provides_ops [THEN preservesD])+

lemma env_requires_step:
  "hook_scope (requires_step ev e) =
     (case ev of R_environment convs hook recv \<Rightarrow> hook | _ \<Rightarrow> hook_scope e)"
  "conversations (requires_step ev e) =
     (case ev of R_environment convs hook recv \<Rightarrow> convs | _ \<Rightarrow> conversations e)"
  by (cases ev; simp add: environment_def env_requires_ops [THEN preservesD]
      env_requires_set_authentication_data [THEN preservesD])+


theorem available_until_departed_witness:
  "available \<in> flags joined_plugin ''global'' \<and>
   provides_no_departure ''global''
     [P_changed, P_clear_changed, P_update_status, P_joined, P_set_name (Some ''generic''),
      P_environment [Some ''global''] (Some ''global'') (\<lambda>_ _. None), P_changed]
     joined_plugin \<and>
   available \<in> flags (provides_run
     [P_changed, P_clear_changed, P_update_status, P_joined, P_set_name (Some ''generic''),
      P_environment [Some ''global''] (Some ''global'') (\<lambda>_ _. None), P_changed]
     joined_plugin) ''global'' \<and>
   available \<in> flags joined_principal ''plugin/0'' \<and>
   requires_no_departure ''plugin/0''
     [R_changed, R_clear_changed, R_update_status, R_joined,
      R_environment [Some ''plugin/0'', Some ''plugin/1''] (Some ''plugin/1'') (\<lambda>_ _. None), R_departed]
     joined_principal \<and>
   available \<in> flags (requires_run
     [R_changed, R_clear_changed, R_update_status, R_joined,
      R_environment [Some ''plugin/0'', Some ''plugin/1''] (Some ''plugin/1'') (\<lambda>_ _. None), R_departed]
     joined_principal) ''plugin/0''"
proof -
  let ?pevs = "[P_changed, P_clear_changed, P_update_status, P_joined,
      P_set_name (Some ''generic''),
      P_environment [Some ''global''] (Some ''global'') (\<lambda>_ _. None), P_changed]"
  let ?rqevs = "[R_changed, R_clear_changed, R_update_status, R_joined,
      R_environment [Some ''plugin/0'', Some ''plugin/1''] (Some ''plugin/1'') (\<lambda>_ _. None), R_departed]"
  have a: "available \<in> flags joined_plugin ''global''"
    "available \<in> flags joined_principal ''plugin/0''"
    by (simp_all add: joined_plugin_eval joined_principal_eval)
  have p: "provides_no_departure ''global'' ?pevs joined_plugin"
    by simp
  have r: "requires_no_departure ''plugin/0'' ?rqevs joined_principal"
    by (simp add: environment_def)
  from available_until_departed [of joined_plugin "''global''" ?pevs]
    available_until_departed [of joined_principal "''plugin/0''" _ ?rqevs]
  show ?thesis using a p r by blast
qed

text \<open>
  Claim C5. When the departed/broken hook runs for a conversation, the handler of either
  endpoint returns with \<open>connected\<close>, \<open>available\<close> and \<open>changed\<close> all cleared for
  it, whatever was set before. Run again, it changes nothing but the log, to which it adds
  its line once more.
\<close>

theorem departed_clears_all:
  assumes "hook_scope e = Some sc" and "Some sc \<in> set (conversations e)"
  shows "fst (provides_departed e) = Inr () \<and>
         flags (snd (provides_departed e)) sc \<inter> {connected, available, changed} = {} \<and>
         (snd (provides_departed (snd (provides_departed e))))
           \<lparr>logged := logged (snd (provides_departed e))\<rparr> = snd (provides_departed e) \<and>
         fst (requires_departed e) = Inr () \<and>
         flags (snd (requires_departed e)) sc \<inter> {connected, available, changed} = {} \<and>
         (snd (requires_departed (snd (requires_departed e))))
           \<lparr>logged := logged (snd (requires_departed e))\<rparr> = snd (requires_departed e)"
proof -
  let ?p = "snd (provides_departed e)" and ?r = "snd (requires_departed e)"
  have hp: "hook_scope ?p = Some sc" "Some sc \<in> set (conversations ?p)"
    and hr: "hook_scope ?r = Some sc" "Some sc \<in> set (conversations ?r)"
    using assms by (simp_all add: env_provides_ops [THEN preservesD]
        env_requires_ops [THEN preservesD])
  have "fst (provides_departed e) = Inr ()" "fst (requires_departed e) = Inr ()"
    using assms by (simp_all add: hook_defs)
  moreover have "flags ?p sc \<inter> {connected, available, changed} = {}"
    "flags ?r sc \<inter> {connected, available, changed} = {}"
    using assms by (auto simp: departed_eq)
  moreover have "(snd (provides_departed ?p))\<lparr>logged := logged ?p\<rparr> = ?p"
    unfolding departed_eq(1) [OF hp] by (simp add: departed_eq(1) [OF assms])
  moreover have "(snd (requires_departed ?r))\<lparr>logged := logged ?r\<rparr> = ?r"
    unfolding departed_eq(2) [OF hr] by (simp add: departed_eq(2) [OF assms])
  ultimately show ?thesis by simp
qed

theorem departed_clears_all_witness:
  "flags joined_plugin ''global'' = {changed, available, connected} \<and>
   flags (snd (provides_departed joined_plugin)) ''global'' = {} \<and>
   flags joined_principal ''plugin/0'' = {changed, available, connected} \<and>
   flags (snd (requires_departed joined_principal)) ''plugin/0'' = {}"
proof -
  have "flags (snd (provides_departed joined_plugin)) ''global'' \<subseteq> flags joined_plugin ''global''"
    "flags (snd (requires_departed joined_principal)) ''plugin/0''
      \<subseteq> flags joined_principal ''plugin/0''"
    by (simp_all add: departed_eq joined_plugin_eval joined_principal_eval)
  with departed_clears_all [of joined_plugin "''global''"]
    departed_clears_all [of joined_principal "''plugin/0''"]
  show ?thesis
    by (auto simp: joined_plugin_eval joined_principal_eval)
qed

lemma changed_provides_step:
  assumes "changed \<in> flags e sc" and "provides_keeps_changed ev"
  shows "changed \<in> flags (provides_step ev e) sc"
proof (cases ev)
  case (P_environment convs hook recv)
  with assms show ?thesis by (simp add: environment_def)
next
  case P_joined
  with assms show ?thesis
    by (cases e rule: resolved_cases) (auto simp: joined_flags handlers_unresolved)
next
  case P_changed
  with assms show ?thesis
    by (cases e rule: resolved_cases) (auto simp: changed_flags handlers_unresolved)
next
  case P_update_status
  with assms show ?thesis
    by (cases e rule: resolved_cases) (auto simp: update_status_flags handlers_unresolved)
qed (use assms in \<open>simp_all add: flags_getters_setters [THEN preservesD]\<close>)

lemma changed_requires_step:
  assumes "changed \<in> flags e sc" and "requires_keeps_changed ev"
  shows "changed \<in> flags (requires_step ev e) sc"
proof (cases ev)
  case (R_environment convs hook recv)
  with assms show ?thesis by (simp add: environment_def)
next
  case R_joined
  with assms show ?thesis
    by (cases e rule: resolved_cases) (auto simp: joined_flags handlers_unresolved)
next
  case R_changed
  with assms show ?thesis
    by (cases e rule: resolved_cases) (auto simp: changed_flags handlers_unresolved)
next
  case R_update_status
  with assms show ?thesis
    by (cases e rule: resolved_cases) (auto simp: update_status_flags handlers_unresolved)
qed (use assms in \<open>simp_all add: flags_getters_setters [THEN preservesD]
      flags_requires_set_authentication_data [THEN preservesD]\<close>)

lemma clear_changed_frame:
  "(snd (provides_clear_changed e))\<lparr>flags := flags e\<rparr> = e"
  "(snd (requires_clear_changed e))\<lparr>flags := flags e\<rparr> = e"
  "st \<noteq> changed \<Longrightarrow> st \<in> flags (snd (provides_clear_changed e)) sc \<longleftrightarrow> st \<in> flags e sc"
  "st \<noteq> changed \<Longrightarrow> st \<in> flags (snd (requires_clear_changed e)) sc \<longleftrightarrow> st \<in> flags e sc"
  by (cases e rule: resolved_cases; simp add: clear_changed_eq handlers_unresolved)+

text \<open>
  Claim C9 as stated fails: the departed/broken hook clears \<open>changed\<close> too, here for a
  plugin whose peer has joined and sent its data.
\<close>

theorem changed_cleared_by_departed:
  "changed \<in> flags joined_plugin ''global'' \<and>
   changed \<notin> flags (provides_step P_departed joined_plugin) ''global'' \<and>
   changed \<in> flags joined_principal ''plugin/0'' \<and>
   changed \<notin> flags (requires_step R_departed joined_principal) ''plugin/0''"
  by (simp add: departed_eq joined_plugin_eval joined_principal_eval)

text \<open>
  Claim C9, amended. \<open>changed\<close> is cleared only by \<open>clear_changed\<close> and by the
  departed/broken hook: every other event of either endpoint keeps it. And
  \<open>clear_changed\<close> changes nothing but the states of a conversation, where every state
  other than \<open>changed\<close>, \<open>available\<close> and \<open>connected\<close> among them, stays as it was.
\<close>

theorem changed_cleared_only_explicitly:
  "(changed \<in> flags e sc \<and> provides_keeps_changed pev
      \<longrightarrow> changed \<in> flags (provides_step pev e) sc) \<and>
   (changed \<in> flags e sc \<and> requires_keeps_changed rqev
      \<longrightarrow> changed \<in> flags (requires_step rqev e) sc) \<and>
   (snd (provides_clear_changed e))\<lparr>flags := flags e\<rparr> = e \<and>
   (snd (requires_clear_changed e))\<lparr>flags := flags e\<rparr> = e \<and>
   (st \<noteq> changed \<longrightarrow>
      (st \<in> flags (snd (provides_clear_changed e)) sc \<longleftrightarrow> st \<in> flags e sc) \<and>
      (st \<in> flags (snd (requires_clear_changed e)) sc \<longleftrightarrow> st \<in> flags e sc))"
  using changed_provides_step changed_requires_step clear_changed_frame by blast

theorem changed_cleared_only_explicitly_witness:
  "changed \<in> flags joined_plugin ''global'' \<and> provides_keeps_changed P_changed \<and>
   changed \<in> flags (provides_step P_changed joined_plugin) ''global'' \<and>
   changed \<in> flags joined_principal ''plugin/0'' \<and> requires_keeps_changed R_joined \<and>
   changed \<in> flags (requires_step R_joined joined_principal) ''plugin/0'' \<and>
   available \<noteq> changed \<and>
   available \<in> flags (snd (provides_clear_changed joined_plugin)) ''global'' \<and>
   available \<in> flags (snd (requires_clear_changed joined_principal)) ''plugin/0'' \<and>
   changed \<notin> flags (snd (provides_clear_changed joined_plugin)) ''global''"
proof -
  have c: "changed \<in> flags joined_plugin ''global''"
    "changed \<in> flags joined_principal ''plugin/0''"
    "available \<in> flags joined_plugin ''global''"
    "available \<in> flags joined_principal ''plugin/0''"
    "changed \<notin> flags (snd (provides_clear_changed joined_plugin)) ''global''"
    by (simp_all add: joined_plugin_eval joined_principal_eval clear_changed_eq)
  have k: "provides_keeps_changed P_changed" "requires_keeps_changed R_joined"
    "available \<noteq> changed"
    by simp_all
  from changed_cleared_only_explicitly
      [of joined_plugin "''global''" P_changed R_joined available]
    changed_cleared_only_explicitly
      [of joined_principal "''plugin/0''" P_changed R_joined available]
  show ?thesis using c k by blast
qed

lemma conversation_eq:
  "conversation sc e = (case found e sc of None \<Rightarrow> (Inl ValueError, e) | Some x \<Rightarrow> (Inr x, e))"
  by (simp add: conversation_def found_def split: option.splits)

lemma found_Some:
  "found e (Some x) = (if Some x \<in> set (conversations e) then Some x else None)"
  by (simp add: found_def)

lemma found_None:
  "found e None =
     (case hook_scope e of
        None \<Rightarrow> None
      | Some x \<Rightarrow> if Some x \<in> set (conversations e) then Some x else None)"
  by (simp add: found_def split: option.splits)

lemma found_mem: "found e c = Some x \<Longrightarrow> Some x \<in> set (conversations e)"
  by (auto simp: found_def split: option.splits if_splits)

lemma found_cong:
  "hook_scope e' = hook_scope e \<Longrightarrow> conversations e' = conversations e \<Longrightarrow> found e' = found e"
  by (auto simp: found_def fun_eq_iff split: option.splits)

lemma get_local_eq:
  "get_local k sc e =
     (case found e sc of
        None \<Rightarrow> (Inl ValueError, e)
      | Some x \<Rightarrow> (Inr (local_data e x k), e))"
  by (simp add: get_local_def bind_def conversation_eq split: option.splits)

lemma constructed_eq:
  "conversations e = [] \<Longrightarrow> constructed e = e\<lparr>conversations := [hook_scope e]\<rparr>"
  by (simp add: constructed_def)

lemma found_constructed:
  "conversations e = [] \<Longrightarrow> found (constructed e) (hook_scope e) = hook_scope e"
  by (simp add: constructed_eq found_def split: option.splits)

text \<open>
  Claim C6. An instance always has a conversation: where none exists, the constructor joins
  the one of its default scope, so \<open>self.conversations()[0]\<close> does not raise. For the
  principal outside a relation hook the scope of that conversation is \<open>None\<close>, the
  \<open>ValueError\<close> of \<open>get_local\<close> is caught and the getter returns \<open>None\<close>. Where the
  default scope is known (always, for the plugin, whose scope is \<open>global\<close>) and nothing is
  stored for it, each of the three accessors returns \<open>None\<close>. No accessor raises and none
  changes the state.
\<close>

theorem accessors_without_conversation:
  "conversations (constructed e) \<noteq> [] \<and>
   (conversations e = [] \<and> hook_scope e = None \<longrightarrow>
      requires_authentication_data (constructed e) = (Inr PNone, constructed e)) \<and>
   (conversations e = [] \<and> hook_scope e = Some sc \<and>
    local_data e sc ''_authentication_data'' = None \<longrightarrow>
      requires_authentication_data (constructed e) = (Inr PNone, constructed e)) \<and>
   (conversations e = [] \<and> hook_scope e = Some sc \<and> local_data e sc ''_name'' = None \<longrightarrow>
      provides_name (constructed e) = (Inr None, constructed e)) \<and>
   (conversations e = [] \<and> hook_scope e = Some sc \<and>
    local_data e sc ''_configuration_data'' = None \<longrightarrow>
      provides_configuration_data (constructed e) = (Inr PNone, constructed e))"
proof -
  have ne: "conversations (constructed e) \<noteq> []"
    by (simp add: constructed_def)
  have first: "first_scope (constructed e) = (Inr (hook_scope e), constructed e)"
    if "conversations e = []"
    using that by (simp add: first_scope_def constructed_eq)
  have l: "local_data (constructed e) = local_data e"
    by (simp add: constructed_def)
  have a: "requires_authentication_data (constructed e) = (Inr PNone, constructed e)"
    if "conversations e = []" "hook_scope e = None"
    using that first found_constructed [of e]
    by (simp add: requires_authentication_data_def bind_def try_except_ValueError_def
        get_local_eq ret_def)
  have b: "requires_authentication_data (constructed e) = (Inr PNone, constructed e)"
    if "conversations e = []" "hook_scope e = Some sc"
      "local_data e sc ''_authentication_data'' = None"
    using that first found_constructed [of e] l
    by (simp add: requires_authentication_data_def bind_def try_except_ValueError_def
        get_local_eq ret_def)
  have c: "provides_name (constructed e) = (Inr None, constructed e)"
    if "conversations e = []" "hook_scope e = Some sc" "local_data e sc ''_name'' = None"
    using that first found_constructed [of e] l
    by (simp add: provides_name_def bind_def get_local_eq)
  have d: "provides_configuration_data (constructed e) = (Inr PNone, constructed e)"
    if "conversations e = []" "hook_scope e = Some sc"
      "local_data e sc ''_configuration_data'' = None"
    using that first found_constructed [of e] l
    by (simp add: provides_configuration_data_def bind_def get_local_eq ret_def)
  from ne a b c d show ?thesis by blast
qed

theorem accessors_without_conversation_witness:
  "conversations initial = [] \<and> hook_scope initial = None \<and>
   conversations (constructed initial) = [None] \<and>
   requires_authentication_data (constructed initial) = (Inr PNone, constructed initial) \<and>
   conversations (environment [] (Some ''plugin/0'') (\<lambda>_ _. None) initial) = [] \<and>
   hook_scope (environment [] (Some ''plugin/0'') (\<lambda>_ _. None) initial) = Some ''plugin/0'' \<and>
   local_data (environment [] (Some ''plugin/0'') (\<lambda>_ _. None) initial) ''plugin/0''
     ''_authentication_data'' = None \<and>
   requires_authentication_data
     (constructed (environment [] (Some ''plugin/0'') (\<lambda>_ _. None) initial))
     = (Inr PNone, constructed (environment [] (Some ''plugin/0'') (\<lambda>_ _. None) initial)) \<and>
   conversations (environment [] (Some ''global'') (\<lambda>_ _. None) initial) = [] \<and>
   hook_scope (environment [] (Some ''global'') (\<lambda>_ _. None) initial) = Some ''global'' \<and>
   local_data (environment [] (Some ''global'') (\<lambda>_ _. None) initial) ''global'' ''_name''
     = None \<and>
   local_data (environment [] (Some ''global'') (\<lambda>_ _. None) initial) ''global''
     ''_configuration_data'' = None \<and>
   conversations (constructed (environment [] (Some ''global'') (\<lambda>_ _. None) initial))
     = [Some ''global''] \<and>
   provides_name (constructed (environment [] (Some ''global'') (\<lambda>_ _. None) initial))
     = (Inr None, constructed (environment [] (Some ''global'') (\<lambda>_ _. None) initial)) \<and>
   provides_configuration_data
     (constructed (environment [] (Some ''global'') (\<lambda>_ _. None) initial))
     = (Inr PNone, constructed (environment [] (Some ''global'') (\<lambda>_ _. None) initial))"
proof -
  let ?u = "environment [] (Some ''plugin/0'') (\<lambda>_ _. None) initial"
  let ?g = "environment [] (Some ''global'') (\<lambda>_ _. None) initial"
  have i: "conversations initial = []" "hook_scope initial = None"
    "conversations (constructed initial) = [None]"
    by (simp_all add: initial_def constructed_def)
  have u: "conversations ?u = []" "hook_scope ?u = Some ''plugin/0''"
    "local_data ?u ''plugin/0'' ''_authentication_data'' = None"
    by (simp_all add: environment_def initial_def)
  have g: "conversations ?g = []" "hook_scope ?g = Some ''global''"
    "local_data ?g ''global'' ''_name'' = None"
    "local_data ?g ''global'' ''_configuration_data'' = None"
    "conversations (constructed ?g) = [Some ''global'']"
    by (simp_all add: environment_def initial_def constructed_def)
  from accessors_without_conversation [of initial]
  have 1: "requires_authentication_data (constructed initial) = (Inr PNone, constructed initial)"
    using i by blast
  from accessors_without_conversation [of ?u "''plugin/0''"]
  have 2: "requires_authentication_data (constructed ?u) = (Inr PNone, constructed ?u)"
    using u by blast
  from accessors_without_conversation [of ?g "''global''"]
  have 3: "provides_name (constructed ?g) = (Inr None, constructed ?g)"
    "provides_configuration_data (constructed ?g) = (Inr PNone, constructed ?g)"
    using g by blast+
  from i u g 1 2 3 show ?thesis by blast
qed

lemma set_local_eq:
  "set_local k v sc e =
     (case found e sc of
        None \<Rightarrow> (Inl ValueError, e)
      | Some x \<Rightarrow>
          (Inr (), e\<lparr>local_data := (local_data e)(x := (local_data e x)(k := v)),
                     calls := calls e @ [SetLocal x k v]\<rparr>))"
  by (simp add: set_local_def bind_def conversation_eq split: option.splits)

lemma set_remote_eq:
  "set_remote k v sc e =
     (case found e sc of
        None \<Rightarrow> (Inl ValueError, e)
      | Some x \<Rightarrow>
          (Inr (), e\<lparr>remote_sent := (remote_sent e)(x := (remote_sent e x)(k := v)),
                     calls := calls e @ [SetRemote x k v]\<rparr>))"
  by (simp add: set_remote_def bind_def conversation_eq split: option.splits)

lemma found_local_update:
  "found (e\<lparr>local_data := l, calls := c\<rparr>) = found e"
  by (rule found_cong) simp_all

lemma write_both:
  "seq (set_local k v sc) (set_remote k v sc) e =
     (case found e sc of
        None \<Rightarrow> (Inl ValueError, e)
      | Some x \<Rightarrow> (Inr (), write_pair k v x e))"
  by (cases "found e sc")
     (simp_all add: seq_def bind_def set_local_eq set_remote_eq found_local_update
       write_pair_def)

lemma write_authentication_data_eq:
  "write_authentication_data val sc e =
     (case dumps_envelope (PDict val) of
        Inl err \<Rightarrow> (Inl err, e)
      | Inr t \<Rightarrow>
          (case found e sc of
             None \<Rightarrow> (Inl ValueError, e)
           | Some x \<Rightarrow> (Inr (), write_pair ''_authentication_data'' (Some t) x e)))"
proof (cases "dumps_envelope (PDict val)")
  case (Inl err)
  then show ?thesis
    by (simp add: write_authentication_data_def bind_def lift_def)
next
  case (Inr t)
  have "write_authentication_data val sc e =
      seq (set_local ''_authentication_data'' (Some t) sc)
        (set_remote ''_authentication_data'' (Some t) sc) e"
    using Inr
    by (simp add: write_authentication_data_def bind_def lift_def seq_def
        split: prod.splits sum.splits)
  with Inr show ?thesis by (simp add: write_both)
qed

lemma provides_set_configuration_data_eq:
  "provides_set_configuration_data d e =
     (case conversations e of
        [] \<Rightarrow> (Inl IndexError, e)
      | c # rest \<Rightarrow>
          (case dumps_envelope d of
             Inl err \<Rightarrow> (Inl err, e)
           | Inr t \<Rightarrow>
               (case found e c of
                  None \<Rightarrow> (Inl ValueError, e)
                | Some x \<Rightarrow> (Inr (), write_pair ''_configuration_data'' (Some t) x e))))"
proof (cases "conversations e")
  case Nil
  then show ?thesis
    by (simp add: provides_set_configuration_data_def bind_def first_scope_def)
next
  case (Cons c rest)
  show ?thesis
  proof (cases "dumps_envelope d")
    case (Inl err)
    with Cons show ?thesis
      by (simp add: provides_set_configuration_data_def bind_def lift_def first_scope_def)
  next
    case (Inr t)
    have "provides_set_configuration_data d e =
        seq (set_local ''_configuration_data'' (Some t) c)
          (set_remote ''_configuration_data'' (Some t) c) e"
      using Cons Inr
      by (simp add: provides_set_configuration_data_def bind_def lift_def seq_def
          first_scope_def split: prod.splits sum.splits)
    with Cons Inr show ?thesis by (simp add: write_both)
  qed
qed

lemma provides_set_name_eq:
  "provides_set_name name e =
     (case conversations e of
        [] \<Rightarrow> (Inl IndexError, e)
      | c # rest \<Rightarrow>
          (case found e c of
             None \<Rightarrow> (Inl ValueError, e)
           | Some x \<Rightarrow> (Inr (), write_pair ''_name'' name x e)))"
proof (cases "conversations e")
  case Nil
  then show ?thesis
    by (simp add: provides_set_name_def bind_def first_scope_def)
next
  case (Cons c rest)
  then have "provides_set_name name e = seq (set_local ''_name'' name c) (set_remote ''_name'' name c) e"
    by (simp add: provides_set_name_def bind_def first_scope_def)
  with Cons show ?thesis by (simp add: write_both)
qed

text \<open>The payload the loop sees for a conversation: a failed fetch reads as nothing stored.\<close>

lemma fetch_eq:
  "try_except_ValueError (get_local k sc) (ret None) e =
     (Inr (case found e sc of None \<Rightarrow> None | Some x \<Rightarrow> local_data e x k), e)"
  by (simp add: try_except_ValueError_def get_local_eq ret_def split: option.splits)

lemma for_conversations_Cons:
  "for_conversations (sc # rest) val e =
     (case (case found e sc of None \<Rightarrow> None
            | Some x \<Rightarrow> local_data e x ''_authentication_data'') of
        None \<Rightarrow> write_then rest val sc e
      | Some d \<Rightarrow>
          (case loads_envelope d of
             Inl err \<Rightarrow> (Inl err, e)
           | Inr ex \<Rightarrow>
               (case unchanged ex val of
                  Inl err \<Rightarrow> (Inl err, e)
                | Inr same \<Rightarrow>
                    if same then for_conversations rest val e
                    else write_then rest val sc e)))"
proof -
  let ?x = "case found e sc of None \<Rightarrow> None
            | Some x \<Rightarrow> local_data e x ''_authentication_data''"
  have step: "for_conversations (sc # rest) val e =
     (case ?x of
        None \<Rightarrow> seq (write_authentication_data val sc) (for_conversations rest val) e
      | Some d \<Rightarrow>
          bind (lift (loads_envelope d)) (\<lambda>existing_auth.
          bind (lift (unchanged existing_auth val)) (\<lambda>same.
            if same then for_conversations rest val
            else seq (write_authentication_data val sc) (for_conversations rest val))) e)"
    by (simp add: bind_def [of "try_except_ValueError _ _"] fetch_eq split: option.splits)
  have w: "seq (write_authentication_data val sc) (for_conversations rest val) e =
      write_then rest val sc e"
    by (simp add: seq_def bind_def write_then_def split: prod.splits sum.splits)
  show ?thesis
  proof (cases ?x)
    case None
    with step w show ?thesis by simp
  next
    case (Some d)
    show ?thesis
    proof (cases "loads_envelope d")
      case (Inl err)
      with step Some show ?thesis by (simp add: bind_def lift_def)
    next
      case (Inr ex)
      show ?thesis
      proof (cases "unchanged ex val")
        case (Inl err)
        with step Some Inr show ?thesis by (simp add: bind_def lift_def)
      next
        case same: (Inr same)
        with step Some Inr w show ?thesis by (simp add: bind_def lift_def)
      qed
    qed
  qed
qed

declare for_conversations.simps(2) [simp del]

lemma paired_append: "paired xs \<Longrightarrow> paired ys \<Longrightarrow> paired (xs @ ys)"
  by (induction xs rule: paired.induct) simp_all

lemma mirrored_write_pair: "mirrored e \<Longrightarrow> mirrored (write_pair k v sc e)"
  by (simp add: mirrored_def write_pair_def paired_append)

lemma mirrored_write_authentication_data:
  "mirrored e \<Longrightarrow> mirrored (snd (write_authentication_data val sc e))"
  by (simp add: write_authentication_data_eq mirrored_write_pair
      split: sum.splits option.splits)

lemma mirrored_for_conversations:
  "mirrored e \<Longrightarrow> mirrored (snd (for_conversations scs val e))"
proof (induction scs arbitrary: e)
  case Nil
  then show ?case by (simp add: ret_def)
next
  case (Cons sc scs)
  have w: "mirrored (snd (write_then scs val sc e))"
  proof (cases "write_authentication_data val sc e")
    case (Pair r e')
    with mirrored_write_authentication_data [OF Cons.prems, of val sc]
    have "mirrored e'" by simp
    with Pair Cons.IH show ?thesis
      by (cases r) (simp_all add: write_then_def)
  qed
  show ?case
    unfolding for_conversations_Cons
    using Cons.prems Cons.IH w
    by (simp split: option.splits sum.splits)
qed


lemma stores_set_state: "preserves stores (set_state st)"
  by (simp add: preserves_def stores_def set_state_eq split: option.splits)

lemma stores_remove_state: "preserves stores (remove_state st)"
  by (simp add: preserves_def stores_def remove_state_eq split: option.splits)

lemma stores_hookenv_log: "preserves stores (hookenv_log lv msg)"
  by (simp add: preserves_def stores_def hookenv_log_def)

lemmas stores_intros = preserves_intros stores_set_state stores_remove_state stores_hookenv_log

lemma stores_ops:
  "preserves stores provides_update_status" "preserves stores provides_joined"
  "preserves stores provides_changed" "preserves stores provides_departed"
  "preserves stores provides_clear_changed" "preserves stores provides_name"
  "preserves stores provides_authentication_data"
  "preserves stores provides_configuration_data"
  "preserves stores requires_update_status" "preserves stores requires_joined"
  "preserves stores requires_changed" "preserves stores requires_departed"
  "preserves stores requires_clear_changed" "preserves stores requires_name"
  "preserves stores requires_authentication_data"
  "preserves stores requires_configuration_data"
  unfolding provides_joined_def provides_changed_def provides_departed_def
    provides_update_status_def provides_clear_changed_def provides_name_def
    provides_authentication_data_def provides_configuration_data_def
    requires_joined_def requires_changed_def requires_departed_def
    requires_update_status_def requires_clear_changed_def requires_name_def
    requires_authentication_data_def requires_configuration_data_def
  by (intro stores_intros)+

lemma mirrored_stores: "stores e' = stores e \<Longrightarrow> mirrored e \<Longrightarrow> mirrored e'"
  by (simp add: mirrored_def stores_def)

lemma mirrored_preserved: "preserves stores m \<Longrightarrow> mirrored e \<Longrightarrow> mirrored (snd (m e))"
  by (rule mirrored_stores [OF preservesD])

lemma key_mismatch_iff:
  "(A - B \<noteq> {} \<or> B - A \<noteq> {}) \<longleftrightarrow> A \<noteq> B"
  by auto

lemma requires_set_authentication_data_eq:
  "requires_set_authentication_data (PDict val) e =
     for_conversations (conversations e) val
       (e\<lparr>logged := logged e @
           (DEBUG, ''ManilaPlugin (principal) Setting authentication data:{}'') #
           (if set (map fst val) = expected_keys then []
            else [(WARNING, ''Setting Authentication data; there may be missing or mispelt '' @
                            ''keys: passed: {}'')])\<rparr>)"
proof (cases "set (map fst val) = expected_keys")
  case True
  then show ?thesis
    by (simp add: requires_set_authentication_data_def seq_def bind_def ret_def
        hookenv_log_def key_mismatch_iff del: set_map)
next
  case False
  then show ?thesis
    by (simp add: requires_set_authentication_data_def seq_def bind_def ret_def
        hookenv_log_def key_mismatch_iff del: set_map)
qed

lemma requires_set_authentication_data_other:
  assumes "\<And>val. v \<noteq> PDict val"
  shows "requires_set_authentication_data v e =
     (Inl AttributeError,
      e\<lparr>logged := logged e @
          [(DEBUG, ''ManilaPlugin (principal) Setting authentication data:{}'')]\<rparr>)"
proof (cases v)
  case (PDict val)
  with assms show ?thesis by blast
qed (simp_all add: requires_set_authentication_data_def seq_def bind_def raise_def
       hookenv_log_def)

lemma mirrored_logged: "mirrored (e\<lparr>logged := l\<rparr>) = mirrored e"
  by (simp add: mirrored_def)

lemma mirrored_setters:
  assumes "mirrored e"
  shows "mirrored (snd (provides_set_name name e))"
    and "mirrored (snd (provides_set_configuration_data d e))"
    and "mirrored (snd (requires_set_authentication_data v e))"
proof -
  show "mirrored (snd (provides_set_name name e))"
    using assms
    by (simp add: provides_set_name_eq mirrored_write_pair split: list.splits option.splits)
  show "mirrored (snd (provides_set_configuration_data d e))"
    using assms
    by (simp add: provides_set_configuration_data_eq mirrored_write_pair
        split: list.splits sum.splits option.splits)
  show "mirrored (snd (requires_set_authentication_data v e))"
  proof (cases "\<exists>val. v = PDict val")
    case True
    then obtain val where "v = PDict val" by blast
    then show ?thesis
      using assms
      by (simp only: requires_set_authentication_data_eq)
         (rule mirrored_for_conversations, simp add: mirrored_logged)
  next
    case False
    then show ?thesis
      using assms
      by (simp add: requires_set_authentication_data_other mirrored_logged)
  qed
qed

lemma mirrored_provides_step: "mirrored e \<Longrightarrow> mirrored (provides_step ev e)"
  by (cases ev)
     (simp_all add: mirrored_setters mirrored_preserved stores_ops,
      simp add: mirrored_def environment_def)

lemma mirrored_requires_step: "mirrored e \<Longrightarrow> mirrored (requires_step ev e)"
  by (cases ev)
     (simp_all add: mirrored_setters mirrored_preserved stores_ops,
      simp add: mirrored_def environment_def)

lemma mirrored_provides_run: "mirrored e \<Longrightarrow> mirrored (provides_run evs e)"
  by (induction evs arbitrary: e) (simp_all add: mirrored_provides_step)

lemma mirrored_requires_run: "mirrored e \<Longrightarrow> mirrored (requires_run evs e)"
  by (induction evs arbitrary: e) (simp_all add: mirrored_requires_step)

lemma mirrored_initial: "mirrored initial"
  by (simp add: mirrored_def initial_def)

lemma complete_text_eq: "dumps_envelope (PDict [(''complete'', PBool True)]) = Inr complete_text"
  by (simp add: dumps_envelope_def complete_text_def encode_basestring_ascii_def
      escape_char_def)

text \<open>
  Claim C10. In every state either endpoint reaches from the initial state, the
  conversation-local data equal the settings published to the peer, and the transport
  writes so far are pairs of a \<open>set_local\<close> and the \<open>set_remote\<close> of the same value under
  the same scope and key. A write that goes through (the plugin's \<open>name\<close> and
  \<open>configuration_data\<close> setters for the conversation their scope stands for, the write of
  the principal's authentication setter) leaves the one string it serialised in both
  places.
\<close>

theorem local_cache_mirrors_remote:
  "mirrored (provides_run pevs initial) \<and> mirrored (requires_run rqevs initial) \<and>
   (conversations e = c # rest \<and> found e c = Some sc \<longrightarrow>
      local_data (snd (provides_set_name name e)) sc ''_name'' = name \<and>
      remote_sent (snd (provides_set_name name e)) sc ''_name'' = name) \<and>
   (conversations e = c # rest \<and> found e c = Some sc \<and> dumps_envelope d = Inr t \<longrightarrow>
      local_data (snd (provides_set_configuration_data d e)) sc ''_configuration_data''
        = Some t \<and>
      remote_sent (snd (provides_set_configuration_data d e)) sc ''_configuration_data''
        = Some t) \<and>
   (found e c = Some sc \<and> dumps_envelope (PDict val) = Inr t \<longrightarrow>
      local_data (snd (write_authentication_data val c e)) sc ''_authentication_data''
        = Some t \<and>
      remote_sent (snd (write_authentication_data val c e)) sc ''_authentication_data''
        = Some t)"
  by (simp add: mirrored_provides_run mirrored_requires_run mirrored_initial
      provides_set_name_eq provides_set_configuration_data_eq write_authentication_data_eq
      write_pair_def)

theorem local_cache_mirrors_remote_witness:
  "conversations joined_plugin = [Some ''global''] \<and>
   found joined_plugin (Some ''global'') = Some ''global'' \<and>
   local_data (snd (provides_set_name (Some ''generic'') joined_plugin)) ''global'' ''_name''
     = Some ''generic'' \<and>
   remote_sent (snd (provides_set_name (Some ''generic'') joined_plugin)) ''global'' ''_name''
     = Some ''generic'' \<and>
   dumps_envelope (PDict [(''complete'', PBool True)]) = Inr complete_text \<and>
   local_data (snd (provides_set_configuration_data (PDict [(''complete'', PBool True)])
     joined_plugin)) ''global'' ''_configuration_data'' = Some complete_text \<and>
   remote_sent (snd (provides_set_configuration_data (PDict [(''complete'', PBool True)])
     joined_plugin)) ''global'' ''_configuration_data'' = Some complete_text \<and>
   local_data (snd (write_authentication_data [(''complete'', PBool True)] (Some ''global'')
     joined_plugin)) ''global'' ''_authentication_data'' = Some complete_text \<and>
   remote_sent (snd (write_authentication_data [(''complete'', PBool True)] (Some ''global'')
     joined_plugin)) ''global'' ''_authentication_data'' = Some complete_text"
  using local_cache_mirrors_remote [of "[]" "[]" joined_plugin "Some ''global''" "[]"
      "''global''" "Some ''generic''" "PDict [(''complete'', PBool True)]" complete_text
      "[(''complete'', PBool True)]"]
  by (simp add: joined_plugin_eval complete_text_eq found_Some)

lemma log_free_ret: "log_free (ret x)"
  by (simp add: log_free_def ret_def)

lemma log_free_lift: "log_free (lift r)"
  by (simp add: log_free_def lift_def)

lemma log_free_bind:
  assumes "log_free m" and "\<And>x. log_free (g x)"
  shows "log_free (bind m g)"
proof -
  have "bind m g (e\<lparr>logged := l\<rparr>) = (fst (bind m g e), (snd (bind m g e))\<lparr>logged := l\<rparr>)" for e l
  proof (cases "m e")
    case (Pair r e')
    then have m: "m (e\<lparr>logged := l\<rparr>) = (r, e'\<lparr>logged := l\<rparr>)"
      using assms(1) by (simp add: log_free_def)
    show ?thesis
    proof (cases r)
      case (Inl err)
      with Pair m show ?thesis by (simp add: bind_def)
    next
      case (Inr x)
      with Pair m assms(2) [of x] show ?thesis by (simp add: bind_def log_free_def)
    qed
  qed
  then show ?thesis by (simp add: log_free_def)
qed

lemma log_free_seq: "log_free m \<Longrightarrow> log_free n \<Longrightarrow> log_free (seq m n)"
  by (simp add: seq_def log_free_bind)

lemma log_free_try:
  assumes "log_free m" and "log_free h"
  shows "log_free (try_except_ValueError m h)"
proof -
  have "try_except_ValueError m h (e\<lparr>logged := l\<rparr>) =
      (fst (try_except_ValueError m h e), (snd (try_except_ValueError m h e))\<lparr>logged := l\<rparr>)"
    for e l
  proof (cases "m e")
    case (Pair r e')
    then have m: "m (e\<lparr>logged := l\<rparr>) = (r, e'\<lparr>logged := l\<rparr>)"
      using assms(1) by (simp add: log_free_def)
    show ?thesis
    proof (cases r)
      case (Inl err)
      with Pair m assms(2) show ?thesis
        by (simp add: try_except_ValueError_def log_free_def)
    next
      case (Inr x)
      with Pair m show ?thesis by (simp add: try_except_ValueError_def)
    qed
  qed
  then show ?thesis by (simp add: log_free_def)
qed

lemma found_logged: "found (e\<lparr>logged := l\<rparr>) = found e"
  by (rule found_cong) simp_all

lemma log_free_get_local: "log_free (get_local k sc)"
  by (simp add: log_free_def get_local_eq found_logged split: option.splits)

lemma log_free_set_local: "log_free (set_local k v sc)"
  by (simp add: log_free_def set_local_eq found_logged split: option.splits)

lemma log_free_set_remote: "log_free (set_remote k v sc)"
  by (simp add: log_free_def set_remote_eq found_logged split: option.splits)

lemmas log_free_intros =
  log_free_ret log_free_lift log_free_bind log_free_seq log_free_try log_free_get_local
  log_free_set_local log_free_set_remote

lemma log_free_for_conversations: "log_free (for_conversations scs val)"
proof (induction scs)
  case Nil
  show ?case by (simp add: log_free_ret)
next
  case (Cons sc scs)
  have w: "log_free (write_authentication_data val sc)"
    unfolding write_authentication_data_def by (intro log_free_intros)
  show ?case
    unfolding for_conversations.simps
    by (intro log_free_intros; (simp split: option.splits)?; intro conjI allI impI log_free_intros w Cons;
        (simp)?; intro conjI allI impI log_free_intros w Cons)
qed


lemma written_Nil: "written [] t e = e"
  by (simp add: written_def)

lemma written_Cons:
  "written (sc # scs) t e = written scs t (write_pair ''_authentication_data'' (Some t) sc e)"
  by (auto simp: written_def write_pair_def fun_eq_iff)

lemma written_fields [simp]:
  "conversations (written scs t e) = conversations e"
  "hook_scope (written scs t e) = hook_scope e"
  "flags (written scs t e) = flags e"
  "logged (written scs t e) = logged e"
  "remote_recv (written scs t e) = remote_recv e"
  by (simp_all add: written_def)

lemma write_pair_other:
  "sc' \<noteq> sc \<Longrightarrow> readable (write_pair k v sc e) val sc' = readable e val sc'"
  "sc' \<noteq> sc \<Longrightarrow> stale (write_pair k v sc e) val sc' = stale e val sc'"
  "conversations (write_pair k v sc e) = conversations e"
  "hook_scope (write_pair k v sc e) = hook_scope e"
  by (simp_all add: readable_def stale_def write_pair_def)

text \<open>
  The loop, when every stored payload can be read and the value serialised: it writes the
  stale conversations, in order, and no other.
\<close>

lemma for_conversations_written:
  assumes "distinct scs" and "Some ` set scs \<subseteq> set (conversations e)"
    and "\<forall>sc \<in> set scs. readable e val sc"
    and "dumps_envelope (PDict val) = Inr t"
  shows "for_conversations (map Some scs) val e
    = (Inr (), written (filter (stale e val) scs) t e)"
  using assms
proof (induction scs arbitrary: e)
  case Nil
  show ?case by (simp add: ret_def written_Nil)
next
  case (Cons sc scs)
  let ?e1 = "write_pair ''_authentication_data'' (Some t) sc e"
  have sc: "found e (Some sc) = Some sc" and r: "readable e val sc"
    and d: "sc \<notin> set scs"
    using Cons.prems by (simp_all add: found_Some)
  have same: "filter (stale ?e1 val) scs = filter (stale e val) scs"
  proof (rule filter_cong [OF refl])
    fix x assume "x \<in> set scs"
    with d have "x \<noteq> sc" by auto
    then show "stale ?e1 val x = stale e val x"
      by (simp add: write_pair_other(2))
  qed
  have ih0: "for_conversations (map Some scs) val e
      = (Inr (), written (filter (stale e val) scs) t e)"
    using Cons.prems by (intro Cons.IH) simp_all
  have "\<forall>x \<in> set scs. readable ?e1 val x"
  proof
    fix x assume x: "x \<in> set scs"
    with d have "x \<noteq> sc" by auto
    with x Cons.prems(3) show "readable ?e1 val x"
      by (simp add: write_pair_other(1))
  qed
  then have "for_conversations (map Some scs) val ?e1
      = (Inr (), written (filter (stale ?e1 val) scs) t ?e1)"
    using Cons.prems by (intro Cons.IH) (simp_all add: write_pair_other(3))
  then have ih1: "write_then (map Some scs) val (Some sc) e
      = (Inr (), written (sc # filter (stale e val) scs) t e)"
    using sc Cons.prems(4)
    by (simp add: write_then_def write_authentication_data_eq same written_Cons)
  show ?case
  proof (cases "stale e val sc")
    case True
    then consider "local_data e sc ''_authentication_data'' = None"
      | d ex where "local_data e sc ''_authentication_data'' = Some d"
          "loads_envelope d = Inr ex" "unchanged ex val = Inr False"
      by (auto simp: stale_def split: option.splits sum.splits)
    then have "for_conversations (map Some (sc # scs)) val e
        = write_then (map Some scs) val (Some sc) e"
      using sc by cases (simp_all add: for_conversations_Cons)
    with True ih1 show ?thesis by simp
  next
    case False
    with r obtain d ex where "local_data e sc ''_authentication_data'' = Some d"
          "loads_envelope d = Inr ex" "unchanged ex val = Inr True"
      by (auto simp: stale_def readable_def split: option.splits sum.splits)
    then have "for_conversations (map Some (sc # scs)) val e
        = for_conversations (map Some scs) val e"
      using sc by (simp add: for_conversations_Cons)
    with False ih0 show ?thesis by simp
  qed
qed

lemma written_stores:
  "local_data (written scs t e) sc ''_authentication_data'' =
     (if sc \<in> set scs then Some t else local_data e sc ''_authentication_data'')"
  "remote_sent (written scs t e) sc ''_authentication_data'' =
     (if sc \<in> set scs then Some t else remote_sent e sc ''_authentication_data'')"
  by (simp_all add: written_def)

lemma seven_fields_text_eq: "dumps_envelope (PDict seven_fields) = Inr seven_fields_text"
  by (simp add: dumps_envelope_def seven_fields_def seven_fields_text_def quoted_def
      encode_basestring_ascii_def escape_char_def)

lemma seven_fields_mismatch: "set (map fst seven_fields) \<noteq> expected_keys"
proof
  assume "set (map fst seven_fields) = expected_keys"
  moreover have "''auth_type'' \<in> expected_keys"
    by (simp add: expected_keys_def)
  ultimately have "''auth_type'' \<in> set (map fst seven_fields)"
    by simp
  then show False
    by (simp add: seven_fields_def)
qed

lemma setter_is_loop:
  "requires_set_authentication_data (PDict val) e =
     (fst (for_conversations (conversations e) val e),
      (snd (for_conversations (conversations e) val e))
        \<lparr>logged := logged e @
           (DEBUG, ''ManilaPlugin (principal) Setting authentication data:{}'') #
           (if set (map fst val) = expected_keys then []
            else [(WARNING, ''Setting Authentication data; there may be missing or mispelt '' @
                            ''keys: passed: {}'')])\<rparr>)"
  using log_free_for_conversations [of "conversations e" val]
  by (simp only: requires_set_authentication_data_eq log_free_def)

text \<open>
  Claim C7. A value whose key set is not the eight expected fields is not rejected: the
  setter does what the loop over the conversations does for any value, and the one
  difference to a well-formed value is the \<open>WARNING\<close> line after the \<open>DEBUG\<close> line in the
  log. So when the stored payloads can be read and the value serialised, each conversation
  whose payload is stale gets the mismatched record, locally and at the peer.
\<close>

theorem key_mismatch_only_warns:
  "requires_set_authentication_data (PDict val) e =
     (fst (for_conversations (conversations e) val e),
      (snd (for_conversations (conversations e) val e))
        \<lparr>logged := logged e @
           (DEBUG, ''ManilaPlugin (principal) Setting authentication data:{}'') #
           (if set (map fst val) = expected_keys then []
            else [(WARNING, ''Setting Authentication data; there may be missing or mispelt '' @
                            ''keys: passed: {}'')])\<rparr>) \<and>
   (set (map fst val) \<noteq> expected_keys \<and> conversations e = map Some scs \<and> distinct scs \<and>
    (\<forall>sc' \<in> set scs. readable e val sc') \<and>
    dumps_envelope (PDict val) = Inr t \<and> sc \<in> set scs \<and> stale e val sc \<longrightarrow>
      fst (requires_set_authentication_data (PDict val) e) = Inr () \<and>
      local_data (snd (requires_set_authentication_data (PDict val) e)) sc
        ''_authentication_data'' = Some t \<and>
      remote_sent (snd (requires_set_authentication_data (PDict val) e)) sc
        ''_authentication_data'' = Some t)"
proof -
  let ?l = "logged e @
           (DEBUG, ''ManilaPlugin (principal) Setting authentication data:{}'') #
           (if set (map fst val) = expected_keys then []
            else [(WARNING, ''Setting Authentication data; there may be missing or mispelt '' @
                            ''keys: passed: {}'')])"
  let ?r = "for_conversations (conversations e) val e"
  have eq: "requires_set_authentication_data (PDict val) e = (fst ?r, (snd ?r)\<lparr>logged := ?l\<rparr>)"
    by (rule setter_is_loop)
  moreover have "fst ?r = Inr () \<and>
      local_data (snd ?r) sc ''_authentication_data'' = Some t \<and>
      remote_sent (snd ?r) sc ''_authentication_data'' = Some t"
    if "conversations e = map Some scs" "distinct scs" "\<forall>sc' \<in> set scs. readable e val sc'"
      "dumps_envelope (PDict val) = Inr t" "sc \<in> set scs" "stale e val sc"
    using that for_conversations_written [of scs e val t]
    by (simp add: written_stores)
  ultimately show ?thesis by simp
qed

theorem key_mismatch_only_warns_witness:
  "set (map fst seven_fields) \<noteq> expected_keys \<and>
   conversations joined_principal = map Some [''plugin/0''] \<and>
   distinct [''plugin/0''] \<and>
   readable joined_principal seven_fields ''plugin/0'' \<and>
   dumps_envelope (PDict seven_fields) = Inr seven_fields_text \<and>
   ''plugin/0'' \<in> set [''plugin/0''] \<and>
   stale joined_principal seven_fields ''plugin/0'' \<and>
   fst (requires_set_authentication_data (PDict seven_fields) joined_principal) = Inr () \<and>
   local_data (snd (requires_set_authentication_data (PDict seven_fields) joined_principal))
     ''plugin/0'' ''_authentication_data'' = Some seven_fields_text \<and>
   remote_sent (snd (requires_set_authentication_data (PDict seven_fields) joined_principal))
     ''plugin/0'' ''_authentication_data'' = Some seven_fields_text"
proof -
  have l: "local_data joined_principal ''plugin/0'' ''_authentication_data'' = None"
    by (simp add: joined_principal_def environment_def initial_def hook_defs)
  then have r: "\<forall>sc' \<in> set [''plugin/0'']. readable joined_principal seven_fields sc'"
    "stale joined_principal seven_fields ''plugin/0''"
    by (simp_all add: readable_def stale_def)
  have c: "conversations joined_principal = map Some [''plugin/0'']"
    "distinct [''plugin/0'']" "''plugin/0'' \<in> set [''plugin/0'']"
    by (simp_all add: joined_principal_eval)
  have r': "readable joined_principal seven_fields ''plugin/0''"
    using l by (simp add: readable_def)
  from key_mismatch_only_warns [of seven_fields joined_principal "[''plugin/0'']"
      seven_fields_text "''plugin/0''"]
  have "fst (requires_set_authentication_data (PDict seven_fields) joined_principal) = Inr () \<and>
    local_data (snd (requires_set_authentication_data (PDict seven_fields) joined_principal))
      ''plugin/0'' ''_authentication_data'' = Some seven_fields_text \<and>
    remote_sent (snd (requires_set_authentication_data (PDict seven_fields) joined_principal))
      ''plugin/0'' ''_authentication_data'' = Some seven_fields_text"
    using r c seven_fields_mismatch seven_fields_text_eq by blast
  with r r' c seven_fields_mismatch seven_fields_text_eq
  show ?thesis by blast
qed


lemma not_json: "loads_envelope ''not json'' = Inl JSONDecodeError"
  by code_simp

lemma number_payload_eq: "loads_envelope number_payload = Inr (PInt 1)"
  by code_simp

lemma opaque_fields_eq: "dumps_envelope (PDict opaque_fields) = Inl TypeError"
  by (simp add: dumps_envelope_def opaque_fields_def encode_basestring_ascii_def
      escape_char_def)

lemma for_conversations_append:
  "for_conversations (pre @ post) val e =
     (case for_conversations pre val e of
        (Inl err, e') \<Rightarrow> (Inl err, e')
      | (Inr u, e') \<Rightarrow> for_conversations post val e')"
proof (induction pre arbitrary: e)
  case Nil
  show ?case by (simp add: ret_def)
next
  case (Cons sc pre)
  have w: "write_then (pre @ post) val sc e =
      (case write_then pre val sc e of
         (Inl err, e') \<Rightarrow> (Inl err, e')
       | (Inr u, e') \<Rightarrow> for_conversations post val e')"
  proof (cases "write_authentication_data val sc e")
    case (Pair r e1)
    then show ?thesis
      by (cases r) (simp_all add: write_then_def Cons.IH)
  qed
  show ?case
  proof (cases "case found e sc of None \<Rightarrow> None
      | Some x \<Rightarrow> local_data e x ''_authentication_data''")
    case None
    then show ?thesis
      unfolding append_Cons for_conversations_Cons [of sc] by (simp add: w)
  next
    case (Some d)
    show ?thesis
    proof (cases "loads_envelope d")
      case (Inl err)
      with Some show ?thesis
        unfolding append_Cons for_conversations_Cons [of sc] by simp
    next
      case (Inr ex)
      show ?thesis
      proof (cases "unchanged ex val")
        case (Inl err)
        with Some Inr show ?thesis
          unfolding append_Cons for_conversations_Cons [of sc] by simp
      next
        case same: (Inr same)
        with Some Inr show ?thesis
          unfolding append_Cons for_conversations_Cons [of sc]
          by (simp add: w Cons.IH)
      qed
    qed
  qed
qed

lemma for_conversations_undecodable:
  assumes "found e c = Some sc"
    and "local_data e sc ''_authentication_data'' = Some d"
    and "loads_envelope d = Inl err"
  shows "for_conversations (c # post) val e = (Inl err, e)"
  using assms by (simp add: for_conversations_Cons)

lemma for_conversations_incomparable:
  assumes "found e c = Some sc"
    and "local_data e sc ''_authentication_data'' = Some d"
    and "loads_envelope d = Inr ex" and "unchanged ex val = Inl err"
  shows "for_conversations (c # post) val e = (Inl err, e)"
  using assms by (simp add: for_conversations_Cons)

text \<open>A write that raises leaves the state as it was, and so does a turn of the loop.\<close>

lemma write_fails:
  "fst (write_authentication_data val c e) = Inl err \<Longrightarrow>
     write_authentication_data val c e = (Inl err, e)"
  by (auto simp: write_authentication_data_eq split: sum.splits option.splits)

lemma write_then_fails:
  assumes "fst (write_then [] val c e) = Inl err"
  shows "write_then post val c e = (Inl err, e)"
proof (cases "write_authentication_data val c e")
  case (Pair r e')
  show ?thesis
  proof (cases r)
    case (Inl err')
    with Pair assms have "err' = err"
      by (simp add: write_then_def)
    with Pair Inl write_fails [of val c e err] show ?thesis
      by (simp add: write_then_def)
  next
    case (Inr u)
    with Pair assms show ?thesis
      by (simp add: write_then_def ret_def)
  qed
qed

lemma write_then_unserialisable:
  "dumps_envelope (PDict val) = Inl err \<Longrightarrow> write_then post val c e = (Inl err, e)"
  by (simp add: write_then_def write_authentication_data_eq)

lemma write_then_unresolved:
  "found e c = None \<Longrightarrow> dumps_envelope (PDict val) = Inr t \<Longrightarrow>
     write_then post val c e = (Inl ValueError, e)"
  by (simp add: write_then_def write_authentication_data_eq)

lemma for_conversations_fails:
  assumes "fst (for_conversations [c] val e) = Inl err"
  shows "for_conversations (c # post) val e = (Inl err, e)"
proof (cases "case found e c of None \<Rightarrow> None
    | Some x \<Rightarrow> local_data e x ''_authentication_data''")
  case None
  with assms have "fst (write_then [] val c e) = Inl err"
    by (simp add: for_conversations_Cons)
  then have "write_then post val c e = (Inl err, e)"
    by (rule write_then_fails)
  with None show ?thesis
    by (simp add: for_conversations_Cons)
next
  case (Some d)
  show ?thesis
  proof (cases "loads_envelope d")
    case (Inl err')
    with Some assms show ?thesis
      by (simp add: for_conversations_Cons)
  next
    case (Inr ex)
    show ?thesis
    proof (cases "unchanged ex val")
      case (Inl err')
      with Some Inr assms show ?thesis
        by (simp add: for_conversations_Cons)
    next
      case same: (Inr same)
      show ?thesis
      proof (cases same)
        case True
        with Some Inr same assms show ?thesis
          by (simp add: for_conversations_Cons ret_def)
      next
        case False
        with Some Inr same assms have "fst (write_then [] val c e) = Inl err"
          by (simp add: for_conversations_Cons)
        then have "write_then post val c e = (Inl err, e)"
          by (rule write_then_fails)
        with Some Inr same False show ?thesis
          by (simp add: for_conversations_Cons)
      qed
    qed
  qed
qed

lemma broken_store_eval:
  "conversations broken_store = [Some ''plugin/0'', Some ''plugin/1'']"
  "hook_scope broken_store = Some ''plugin/0''"
  "local_data broken_store ''plugin/0'' ''_authentication_data'' = Some ''not json''"
  "local_data broken_store ''plugin/1'' ''_authentication_data'' = None"
  "remote_sent broken_store ''plugin/1'' ''_authentication_data'' = None"
  "calls broken_store = []"
  by (simp_all add: broken_store_def initial_def)

text \<open>
  Claim C8 as stated fails: the payload stored for the first conversation does not decode,
  the setter raises \<open>JSONDecodeError\<close> there, and the second conversation, for which
  nothing is stored, gets no write.
\<close>

theorem failure_stops_the_loop:
  "conversations broken_store = [Some ''plugin/0'', Some ''plugin/1''] \<and>
   local_data broken_store ''plugin/1'' ''_authentication_data'' = None \<and>
   fst (requires_set_authentication_data (PDict seven_fields) broken_store)
     = Inl JSONDecodeError \<and>
   remote_sent (snd (requires_set_authentication_data (PDict seven_fields) broken_store))
     ''plugin/1'' ''_authentication_data'' = None \<and>
   calls (snd (requires_set_authentication_data (PDict seven_fields) broken_store)) = []"
proof -
  have f: "found broken_store (Some ''plugin/0'') = Some ''plugin/0''"
    by (simp add: found_Some broken_store_eval)
  have "for_conversations (conversations broken_store) seven_fields broken_store
      = (Inl JSONDecodeError, broken_store)"
    unfolding broken_store_eval(1)
    by (rule for_conversations_undecodable [OF f broken_store_eval(3) not_json])
  with broken_store_eval show ?thesis
    by (simp add: setter_is_loop)
qed


text \<open>
  Claim C8, amended. The conversations are processed in order, and any exception raised
  while one of them is processed ends the loop and the setter: the setter raises that
  exception with the conversations before it processed (their writes are in the stores)
  and with that conversation and all later ones left as they were. The exceptions of a
  turn of the loop: the stored payload does not decode; it decodes to something that
  cannot be compared with the value; the value cannot be serialised for the write; no
  conversation is found for the scope. In the last case the \<open>ValueError\<close> of the fetch is
  caught and read as nothing stored, and the write that follows raises it again.
\<close>

theorem failure_ends_the_loop:
  "(conversations e = pre @ c # post \<and> for_conversations pre val e = (Inr (), e1) \<and>
    fst (for_conversations [c] val e1) = Inl err \<longrightarrow>
      fst (requires_set_authentication_data (PDict val) e) = Inl err \<and>
      stores (snd (requires_set_authentication_data (PDict val) e)) = stores e1) \<and>
   (found e c = Some sc \<and> local_data e sc ''_authentication_data'' = Some d \<and>
    loads_envelope d = Inl err \<longrightarrow>
      fst (for_conversations [c] val e) = Inl err) \<and>
   (found e c = Some sc \<and> local_data e sc ''_authentication_data'' = Some d \<and>
    loads_envelope d = Inr ex \<and> unchanged ex val = Inl err \<longrightarrow>
      fst (for_conversations [c] val e) = Inl err) \<and>
   (found e c = Some sc \<and> stale e val sc \<and> dumps_envelope (PDict val) = Inl err \<longrightarrow>
      fst (for_conversations [c] val e) = Inl err) \<and>
   (found e c = None \<and> dumps_envelope (PDict val) = Inl err \<longrightarrow>
      fst (for_conversations [c] val e) = Inl err) \<and>
   (found e c = None \<and> dumps_envelope (PDict val) = Inr t \<longrightarrow>
      try_except_ValueError (get_local ''_authentication_data'' c) (ret None) e
        = (Inr None, e) \<and>
      fst (for_conversations [c] val e) = Inl ValueError)"
proof -
  have 1: "fst (requires_set_authentication_data (PDict val) e) = Inl err \<and>
      stores (snd (requires_set_authentication_data (PDict val) e)) = stores e1"
    if c: "conversations e = pre @ c # post"
      and p: "for_conversations pre val e = (Inr (), e1)"
      and f: "fst (for_conversations [c] val e1) = Inl err"
  proof -
    have "for_conversations (pre @ c # post) val e = (Inl err, e1)"
      by (simp add: for_conversations_append p for_conversations_fails [OF f])
    with c show ?thesis
      by (simp add: setter_is_loop stores_def)
  qed
  have 2: "fst (for_conversations [c] val e) = Inl err"
    if "found e c = Some sc" "local_data e sc ''_authentication_data'' = Some d"
      "loads_envelope d = Inl err"
    using that by (simp add: for_conversations_undecodable)
  have 3: "fst (for_conversations [c] val e) = Inl err"
    if "found e c = Some sc" "local_data e sc ''_authentication_data'' = Some d"
      "loads_envelope d = Inr ex" "unchanged ex val = Inl err"
    using that by (simp add: for_conversations_incomparable)
  have 4: "fst (for_conversations [c] val e) = Inl err"
    if f: "found e c = Some sc" and s: "stale e val sc"
      and d: "dumps_envelope (PDict val) = Inl err"
  proof -
    from s consider "local_data e sc ''_authentication_data'' = None"
      | d ex where "local_data e sc ''_authentication_data'' = Some d"
          "loads_envelope d = Inr ex" "unchanged ex val = Inr False"
      by (auto simp: stale_def split: option.splits sum.splits)
    then have "for_conversations [c] val e = write_then [] val c e"
      using f by cases (simp_all add: for_conversations_Cons)
    with d show ?thesis
      by (simp add: write_then_unserialisable)
  qed
  have 5: "fst (for_conversations [c] val e) = Inl err"
    if "found e c = None" "dumps_envelope (PDict val) = Inl err"
    using that by (simp add: for_conversations_Cons write_then_unserialisable)
  have 6: "try_except_ValueError (get_local ''_authentication_data'' c) (ret None) e
        = (Inr None, e) \<and>
      fst (for_conversations [c] val e) = Inl ValueError"
    if "found e c = None" "dumps_envelope (PDict val) = Inr t"
    using that by (simp add: fetch_eq for_conversations_Cons write_then_unresolved)
  from 1 2 3 4 5 6 show ?thesis by blast
qed

theorem failure_ends_the_loop_witness:
  "conversations broken_last = [Some ''plugin/1''] @ Some ''plugin/0'' # [] \<and>
   for_conversations [Some ''plugin/1''] seven_fields broken_last
     = (Inr (), written [''plugin/1''] seven_fields_text broken_last) \<and>
   found (written [''plugin/1''] seven_fields_text broken_last) (Some ''plugin/0'')
     = Some ''plugin/0'' \<and>
   local_data (written [''plugin/1''] seven_fields_text broken_last)
     ''plugin/0'' ''_authentication_data'' = Some ''not json'' \<and>
   loads_envelope ''not json'' = Inl JSONDecodeError \<and>
   fst (for_conversations [Some ''plugin/0''] seven_fields
     (written [''plugin/1''] seven_fields_text broken_last)) = Inl JSONDecodeError \<and>
   fst (requires_set_authentication_data (PDict seven_fields) broken_last)
     = Inl JSONDecodeError \<and>
   remote_sent (snd (requires_set_authentication_data (PDict seven_fields) broken_last))
     ''plugin/1'' ''_authentication_data'' = Some seven_fields_text \<and>
   local_data (snd (requires_set_authentication_data (PDict seven_fields) broken_last))
     ''plugin/0'' ''_authentication_data'' = Some ''not json'' \<and>
   found number_store (Some ''plugin/1'') = Some ''plugin/1'' \<and>
   local_data number_store ''plugin/1'' ''_authentication_data'' = Some number_payload \<and>
   loads_envelope number_payload = Inr (PInt 1) \<and>
   unchanged (PInt 1) seven_fields = Inl AttributeError \<and>
   fst (for_conversations [Some ''plugin/1''] seven_fields number_store)
     = Inl AttributeError \<and>
   found number_store (Some ''plugin/0'') = Some ''plugin/0'' \<and>
   stale number_store opaque_fields ''plugin/0'' \<and>
   dumps_envelope (PDict opaque_fields) = Inl TypeError \<and>
   fst (for_conversations [Some ''plugin/0''] opaque_fields number_store) = Inl TypeError \<and>
   found (constructed initial) None = None \<and>
   fst (for_conversations [None] opaque_fields (constructed initial)) = Inl TypeError \<and>
   dumps_envelope (PDict seven_fields) = Inr seven_fields_text \<and>
   try_except_ValueError (get_local ''_authentication_data'' None) (ret None)
     (constructed initial) = (Inr None, constructed initial) \<and>
   fst (for_conversations [None] seven_fields (constructed initial)) = Inl ValueError"
proof -
  let ?e = "broken_last"
  let ?e1 = "written [''plugin/1''] seven_fields_text ?e"
  let ?i = "constructed initial"
  have c: "conversations ?e = [Some ''plugin/1''] @ Some ''plugin/0'' # []"
    by (simp add: broken_last_def)
  have s: "stale ?e seven_fields ''plugin/1''" "readable ?e seven_fields ''plugin/1''"
    by (simp_all add: stale_def readable_def broken_last_def broken_store_def initial_def)
  have p: "for_conversations [Some ''plugin/1''] seven_fields ?e = (Inr (), ?e1)"
    using for_conversations_written [of "[''plugin/1'']" ?e seven_fields seven_fields_text] s c
    by (simp add: seven_fields_text_eq)
  have f: "found ?e1 (Some ''plugin/0'') = Some ''plugin/0''"
    by (simp add: found_Some c)
  have l: "local_data ?e1 ''plugin/0'' ''_authentication_data'' = Some ''not json''"
    by (simp add: written_stores broken_last_def broken_store_def initial_def)
  have r: "remote_sent ?e1 ''plugin/1'' ''_authentication_data'' = Some seven_fields_text"
    by (simp add: written_stores)
  have n: "found number_store (Some ''plugin/1'') = Some ''plugin/1''"
    "found number_store (Some ''plugin/0'') = Some ''plugin/0''"
    "local_data number_store ''plugin/1'' ''_authentication_data'' = Some number_payload"
    "stale number_store opaque_fields ''plugin/0''"
    by (simp_all add: found_Some number_store_def initial_def stale_def)
  have u: "unchanged (PInt 1) seven_fields = Inl AttributeError"
    by (simp add: unchanged_def)
  have i: "found ?i None = None"
    by (simp add: found_None constructed_def initial_def)
  from failure_ends_the_loop [where e = ?e1 and c = "Some ''plugin/0''" and val = seven_fields
      and err = JSONDecodeError and sc = "''plugin/0''" and d = "''not json''"]
  have a: "fst (for_conversations [Some ''plugin/0''] seven_fields ?e1) = Inl JSONDecodeError"
    using f l not_json by blast
  from failure_ends_the_loop [of ?e "[Some ''plugin/1'']" "Some ''plugin/0''" "[]"
      seven_fields ?e1 JSONDecodeError]
  have b: "fst (requires_set_authentication_data (PDict seven_fields) ?e) = Inl JSONDecodeError"
    "stores (snd (requires_set_authentication_data (PDict seven_fields) ?e)) = stores ?e1"
    using c p a by blast+
  from failure_ends_the_loop [where e = number_store and c = "Some ''plugin/1''"
      and val = seven_fields and err = AttributeError and sc = "''plugin/1''"
      and d = number_payload and ex = "PInt 1"]
  have d: "fst (for_conversations [Some ''plugin/1''] seven_fields number_store)
      = Inl AttributeError"
    using n number_payload_eq u by blast
  from failure_ends_the_loop [where e = number_store and c = "Some ''plugin/0''"
      and val = opaque_fields and err = TypeError and sc = "''plugin/0''"]
  have g: "fst (for_conversations [Some ''plugin/0''] opaque_fields number_store)
      = Inl TypeError"
    using n opaque_fields_eq by blast
  from failure_ends_the_loop [where e = ?i and c = None and val = opaque_fields
      and err = TypeError]
  have h: "fst (for_conversations [None] opaque_fields ?i) = Inl TypeError"
    using i opaque_fields_eq by blast
  from failure_ends_the_loop [where e = ?i and c = None and val = seven_fields
      and t = seven_fields_text]
  have k: "try_except_ValueError (get_local ''_authentication_data'' None) (ret None) ?i
      = (Inr None, ?i)"
    "fst (for_conversations [None] seven_fields ?i) = Inl ValueError"
    using i seven_fields_text_eq by blast+
  from b r l
  have m: "remote_sent (snd (requires_set_authentication_data (PDict seven_fields) ?e))
       ''plugin/1'' ''_authentication_data'' = Some seven_fields_text"
    "local_data (snd (requires_set_authentication_data (PDict seven_fields) ?e))
       ''plugin/0'' ''_authentication_data'' = Some ''not json''"
    by (simp_all add: stores_def)
  from c p f l not_json a b(1) m n number_payload_eq u d opaque_fields_eq g i h
    seven_fields_text_eq k
  show ?thesis by blast
qed

lemma hexval_hexdigit_all:
  "list_all (\<lambda>k. hexval (hexdigit k) = Some k) [0..<16]"
  by code_simp

lemma hexval_hexdigit: "k < 16 \<Longrightarrow> hexval (hexdigit k) = Some k"
  using hexval_hexdigit_all by (simp add: list_all_iff)

lemma decode_u_escape:
  assumes "n < 256"
  shows "decode_uXXXX (hexdigit (n div 4096 mod 16)) (hexdigit (n div 256 mod 16))
           (hexdigit (n div 16 mod 16)) (hexdigit (n mod 16)) = Some n"
proof -
  have "n div 4096 mod 16 = 0" "n div 256 mod 16 = 0" "n div 16 mod 16 = n div 16"
    using assms by simp_all
  then show ?thesis
    using assms by (simp add: decode_uXXXX_def hexval_hexdigit)
qed

lemma scanstring_escape_char:
  "scanstring (escape_char c @ s) acc = scanstring s (acc @ [c])"
proof -
  consider (special) "c \<in> {CHR 0x5C, CHR 0x22, CHR 0x08, CHR 0x0C, CHR 0x0A, CHR 0x0D, CHR 0x09}"
    | (uni) "c \<notin> {CHR 0x5C, CHR 0x22, CHR 0x08, CHR 0x0C, CHR 0x0A, CHR 0x0D, CHR 0x09}"
        "(of_char c :: nat) < 0x20 \<or> (0x7E :: nat) < of_char c"
    | (plain) "c \<noteq> CHR 0x5C" "c \<noteq> CHR 0x22" "\<not> (of_char c :: nat) < 0x20"
        "\<not> (0x7E :: nat) < of_char c"
    by auto
  then show ?thesis
  proof cases
    case special
    then show ?thesis
      by (auto simp: escape_char_def backslash_def)
  next
    case uni
    have n: "(of_char c :: nat) < 256"
      by (rule nat_of_char_less_256)
    from uni have "escape_char c = u_escape (of_char c)"
      by (auto simp: escape_char_def)
    then show ?thesis
      using decode_u_escape [OF n] n by (simp add: u_escape_def)
  next
    case plain
    then have "escape_char c = [c]"
      by (auto simp: escape_char_def)
    with plain show ?thesis by simp
  qed
qed

lemma scanstring_escaped:
  "scanstring (concat (map escape_char s) @ CHR 0x22 # rest) acc = Inr (acc @ s, rest)"
proof (induction s arbitrary: acc)
  case Nil
  show ?case by simp
next
  case (Cons c s)
  show ?case
    by (simp add: scanstring_escape_char Cons del: scanstring.simps(2))
qed


declare nat_repr.simps [simp del]

lemma nat_repr_small: "n < 10 \<Longrightarrow> nat_repr n = [char_of (48 + n)]"
  by (subst nat_repr.simps) simp

lemma nat_repr_large:
  "\<not> n < 10 \<Longrightarrow> nat_repr n = nat_repr (n div 10) @ [char_of (48 + n mod 10)]"
  by (subst nat_repr.simps) simp

lemma digit_char: "d < 10 \<Longrightarrow> is_digit (char_of (48 + d))"
  "d < 10 \<Longrightarrow> (of_char (char_of (48 + d :: nat)) :: nat) = 48 + d"
  by (simp_all add: is_digit_def)

lemma char_of_48: "char_of (48 :: nat) = CHR ''0''"
  by code_simp

lemma digit_char_zero: "d < 10 \<Longrightarrow> char_of (48 + d :: nat) = CHR ''0'' \<longleftrightarrow> d = 0"
proof
  assume d: "d < 10" and "char_of (48 + d) = CHR ''0''"
  then have "(of_char (char_of (48 + d)) :: nat) = of_char CHR ''0''" by simp
  with d show "d = 0" by (simp add: digit_char(2) del: of_char_of)
qed (simp add: char_of_48)

lemma nat_repr_nonempty: "nat_repr n \<noteq> []"
  by (cases "n < 10") (simp_all add: nat_repr_small nat_repr_large)

lemma nat_repr_digits: "\<forall>c \<in> set (nat_repr n). is_digit c"
proof (induction n rule: nat_repr.induct)
  case (1 n)
  show ?case
  proof (cases "n < 10")
    case True
    then show ?thesis by (simp add: nat_repr_small digit_char)
  next
    case False
    with 1 show ?thesis by (simp add: nat_repr_large digit_char)
  qed
qed

lemma digits_val_snoc: "digits_val (ds @ [c]) = 10 * digits_val ds + (of_char c - 48)"
  by (simp add: digits_val_def)

lemma digits_val_nat_repr: "digits_val (nat_repr n) = n"
proof (induction n rule: nat_repr.induct)
  case (1 n)
  show ?case
  proof (cases "n < 10")
    case True
    then show ?thesis by (simp add: nat_repr_small digits_val_def digit_char)
  next
    case False
    with 1 show ?thesis by (simp add: nat_repr_large digits_val_snoc digit_char)
  qed
qed

lemma hd_nat_repr: "hd (nat_repr n) = CHR ''0'' \<longleftrightarrow> n = 0"
proof (induction n rule: nat_repr.induct)
  case (1 n)
  show ?case
  proof (cases "n < 10")
    case True
    then show ?thesis by (simp add: nat_repr_small digit_char_zero)
  next
    case False
    with 1 show ?thesis by (simp add: nat_repr_large nat_repr_nonempty)
  qed
qed


lemma not_digit_delim: "delim r \<Longrightarrow> r = c # r' \<Longrightarrow> \<not> is_digit c"
  by (auto simp: delim_def is_digit_def)

lemma takeWhile_digits:
  assumes "\<forall>c \<in> set ds. is_digit c" and "delim r"
  shows "takeWhile is_digit (ds @ r) = ds" and "dropWhile is_digit (ds @ r) = r"
proof -
  have r: "takeWhile is_digit r = []" "dropWhile is_digit r = r"
    using assms(2) by (cases r; auto dest: not_digit_delim)+
  show "takeWhile is_digit (ds @ r) = ds" "dropWhile is_digit (ds @ r) = r"
    using assms(1) r by (induction ds) simp_all
qed

lemma hd_nat_repr_digit: "is_digit (hd (nat_repr n))"
  using nat_repr_digits [of n] nat_repr_nonempty [of n] by (cases "nat_repr n") simp_all

lemma is_digit_not_minus: "is_digit c \<Longrightarrow> c \<noteq> CHR ''-''"
  by (auto simp: is_digit_def)

lemma match_int_nat_repr:
  assumes "delim r"
  shows "match_int (nat_repr n @ r) = Some (nat_repr n, r)"
proof (cases "nat_repr n")
  case Nil
  with nat_repr_nonempty show ?thesis by blast
next
  case (Cons c ds)
  have c: "is_digit c" and ds: "\<forall>x \<in> set ds. is_digit x"
    using nat_repr_digits [of n] Cons by simp_all
  have m: "c \<noteq> CHR ''-''"
    using c by (rule is_digit_not_minus)
  show ?thesis
  proof (cases "n = 0")
    case True
    then have "nat_repr n = ''0''" by (simp add: nat_repr_small char_of_48)
    then show ?thesis by (simp add: match_int_def)
  next
    case False
    then have "c \<noteq> CHR ''0''"
      using hd_nat_repr [of n] Cons by simp
    then show ?thesis
      using Cons c m takeWhile_digits [OF ds assms] by (simp add: match_int_def)
  qed
qed

lemma match_int_int_repr:
  assumes "delim r"
  shows "match_int (int_repr i @ r) = Some (int_repr i, r)"
proof (cases "i < 0")
  case True
  let ?n = "nat (- i)"
  from True have n: "?n \<noteq> 0" by simp
  obtain c ds where cs: "nat_repr ?n = c # ds"
    using nat_repr_nonempty [of ?n] by (cases "nat_repr ?n") auto
  have c: "is_digit c" and ds: "\<forall>x \<in> set ds. is_digit x"
    using nat_repr_digits [of ?n] cs by simp_all
  have "c \<noteq> CHR ''0''"
    using hd_nat_repr [of ?n] cs n by simp
  then show ?thesis
    using True cs c takeWhile_digits [OF ds assms]
    by (simp add: int_repr_def match_int_def)
next
  case False
  then show ?thesis
    using match_int_nat_repr [OF assms, of "nat i"] by (simp add: int_repr_def)
qed

lemma int_of_str_int_repr: "int_of_str (int_repr i) = i"
proof (cases "i < 0")
  case True
  then show ?thesis
    by (simp add: int_repr_def int_of_str_def digits_val_nat_repr)
next
  case False
  obtain c ds where cs: "nat_repr (nat i) = c # ds"
    using nat_repr_nonempty [of "nat i"] by (cases "nat_repr (nat i)") auto
  have "c \<noteq> CHR ''-''"
    using nat_repr_digits [of "nat i"] cs by (simp add: is_digit_not_minus)
  then show ?thesis
    using False cs digits_val_nat_repr [of "nat i"]
    by (simp add: int_repr_def int_of_str_def)
qed

lemma delim_no_number_tail: "delim r \<Longrightarrow> \<not> has_frac r \<and> \<not> has_exp r"
  by (cases r) (auto simp: delim_def has_frac_def has_exp_def split: list.splits)

text \<open>The first character of an integer: a digit or the sign.\<close>

lemma int_repr_first:
  obtains c ds where "int_repr i = c # ds" and "is_digit c \<or> c = CHR ''-''"
proof (cases "i < 0")
  case True
  then show ?thesis by (intro that [of "CHR ''-''"]) (simp_all add: int_repr_def)
next
  case False
  obtain c ds where cs: "nat_repr (nat i) = c # ds"
    using nat_repr_nonempty [of "nat i"] by (cases "nat_repr (nat i)") auto
  have "is_digit c"
    using nat_repr_digits [of "nat i"] cs by simp
  with False cs show ?thesis by (intro that [of c ds]) (simp_all add: int_repr_def)
qed

lemma scan_once_string:
  "scan_once (Suc n) (CHR 0x22 # cs) =
     (case scanstring cs [] of Inl err \<Rightarrow> Inl err | Inr (str, r) \<Rightarrow> Inr (PStr str, r))"
  by simp

lemma scan_once_object:
  "scan_once (Suc n) (CHR ''{'' # cs) =
     (case skip_ws cs of
        [] \<Rightarrow> Inl JSONDecodeError
      | d # r \<Rightarrow>
          if d = CHR ''}'' then Inr (PDict [], r)
          else if d = CHR 0x22 then object_loop n r []
          else Inl JSONDecodeError)"
  by simp

lemma scan_once_array:
  "scan_once (Suc n) (CHR ''['' # cs) =
     (case skip_ws cs of
        [] \<Rightarrow> array_loop n [] []
      | d # r \<Rightarrow> if d = CHR '']'' then Inr (PList [], r) else array_loop n (d # r) [])"
  by simp

lemma scan_once_literals:
  "scan_once (Suc n) (''null'' @ r) = Inr (PNone, r)"
  "scan_once (Suc n) (''true'' @ r) = Inr (PBool True, r)"
  "scan_once (Suc n) (''false'' @ r) = Inr (PBool False, r)"
  by (simp_all add: is_prefix_def)

lemma scan_once_int:
  assumes "delim r"
  shows "scan_once (Suc n) (int_repr i @ r) = Inr (PInt i, r)"
proof -
  obtain c ds where cs: "int_repr i = c # ds" and c: "is_digit c \<or> c = CHR ''-''"
    by (rule int_repr_first)
  from c have ne: "c \<noteq> CHR 0x22" "c \<noteq> CHR ''{''" "c \<noteq> CHR ''[''" "c \<noteq> CHR ''n''"
    "c \<noteq> CHR ''t''" "c \<noteq> CHR ''f''"
    by (auto simp: is_digit_def)
  have "match_int (c # ds @ r) = Some (c # ds, r)"
    using match_int_int_repr [OF assms, of i] cs by simp
  then show ?thesis
    using ne delim_no_number_tail [OF assms] int_of_str_int_repr [of i] cs
    by (simp add: is_prefix_def)
qed

declare scan_once.simps(3) [simp del]


lemma skip_ws_solid: "\<not> is_ws c \<Longrightarrow> skip_ws (c # cs) = c # cs"
  by (simp add: skip_ws_def)

lemma skip_ws_starts_value: "starts_value s \<Longrightarrow> skip_ws s = s"
  by (cases s) (simp_all add: starts_value_def skip_ws_def)

lemma skip_ws_space: "skip_ws (CHR '' '' # s) = skip_ws s"
  by (simp add: skip_ws_def is_ws_def)

lemma skip_ws_delims [simp]:
  "skip_ws (CHR '','' # s) = CHR '','' # s"
  "skip_ws (CHR '']'' # s) = CHR '']'' # s"
  "skip_ws (CHR ''}'' # s) = CHR ''}'' # s"
  "skip_ws (CHR '':'' # s) = CHR '':'' # s"
  "skip_ws (CHR 0x22 # s) = CHR 0x22 # s"
  "skip_ws [] = []"
  by (simp_all add: skip_ws_def is_ws_def)

lemma starts_value_append: "starts_value s \<Longrightarrow> starts_value (s @ r)"
  by (cases s) (simp_all add: starts_value_def)

lemma starts_value_Cons: "starts_value (c # s) \<longleftrightarrow> \<not> is_ws c \<and> c \<noteq> CHR '']''"
  by (simp add: starts_value_def)

lemma starts_value_int_repr: "starts_value (int_repr i)"
proof -
  obtain c ds where "int_repr i = c # ds" and "is_digit c \<or> c = CHR ''-''"
    by (rule int_repr_first)
  then show ?thesis
    by (auto simp: starts_value_def is_ws_def is_digit_def)
qed

lemma starts_value_dumps: "json_dumps v = Inr t \<Longrightarrow> starts_value t"
  by (cases v)
     (auto simp: starts_value_Cons is_ws_def encode_basestring_ascii_def starts_value_int_repr
       split: sum.splits)

lemma starts_value_dumps_list:
  "xs \<noteq> [] \<Longrightarrow> dumps_list xs = Inr ts \<Longrightarrow> starts_value ts"
  by (cases xs)
     (auto simp: starts_value_append starts_value_dumps split: sum.splits if_splits)

lemma delim_Cons [simp]:
  "delim (CHR '','' # s)" "delim (CHR '']'' # s)" "delim (CHR ''}'' # s)" "delim []"
  by (simp_all add: delim_def)

lemma array_loop_last:
  "scan_once n s = Inr (v, CHR '']'' # r) \<Longrightarrow>
   array_loop (Suc n) s vs = Inr (PList (vs @ [v]), r)"
  by simp

lemma array_loop_more:
  "scan_once n s = Inr (v, '', '' @ s') \<Longrightarrow> starts_value s' \<Longrightarrow>
   array_loop (Suc n) s vs = array_loop n s' (vs @ [v])"
  by (simp add: skip_ws_space skip_ws_starts_value)

lemma object_loop_last:
  assumes "scan_once n s = Inr (v, CHR ''}'' # r)" and "starts_value s"
  shows "object_loop (Suc n) (concat (map escape_char k) @ CHR 0x22 # '': '' @ s) ps =
     Inr (PDict (dict_of_pairs (ps @ [(k, v)])), r)"
  using assms
  by (simp add: scanstring_escaped skip_ws_space skip_ws_starts_value)

lemma object_loop_more:
  assumes "scan_once n s = Inr (v, '', '' @ CHR 0x22 # s')" and "starts_value s"
  shows "object_loop (Suc n) (concat (map escape_char k) @ CHR 0x22 # '': '' @ s) ps =
     object_loop n s' (ps @ [(k, v)])"
  using assms
  by (simp add: scanstring_escaped skip_ws_space skip_ws_starts_value)

declare array_loop.simps(2) [simp del] object_loop.simps(2) [simp del]


text \<open>The scanner reads back what the encoder wrote, for a value, the elements of a
  non-empty array and the items of a non-empty object.\<close>

lemma scan_dumps:
  "\<forall>t r n. json_dumps v = Inr t \<longrightarrow> delim r \<longrightarrow> scan_fuel v \<le> n \<longrightarrow>
     scan_once n (t @ r) = Inr (reloaded v, r)"
  "\<forall>ts r n acc. xs \<noteq> [] \<longrightarrow> dumps_list xs = Inr ts \<longrightarrow> scan_fuel_list xs \<le> n \<longrightarrow>
     array_loop n (ts @ CHR '']'' # r) acc = Inr (PList (acc @ reloaded_list xs), r)"
  "\<forall>ts r n ps. kvs \<noteq> [] \<longrightarrow> dumps_items kvs = Inr ts \<longrightarrow> scan_fuel_items kvs \<le> n \<longrightarrow>
     object_loop n (tl ts @ CHR ''}'' # r) ps
       = Inr (PDict (dict_of_pairs (ps @ reloaded_items kvs)), r)"
proof (induction v and xs and kvs rule: json_dumps_dumps_list_dumps_items.induct)
  case 1
  show ?case
  proof (intro allI impI)
    fix t r n assume "json_dumps PNone = Inr t" "scan_fuel PNone \<le> n"
    then obtain m where "n = Suc m" "t = ''null''" by (cases n) auto
    then show "scan_once n (t @ r) = Inr (reloaded PNone, r)"
      using scan_once_literals(1) [of m r] by simp
  qed
next
  case (2 b)
  show ?case
  proof (intro allI impI)
    fix t r n assume "json_dumps (PBool b) = Inr t" "scan_fuel (PBool b) \<le> n"
    then obtain m where "n = Suc m" "t = (if b then ''true'' else ''false'')"
      by (cases n) auto
    then show "scan_once n (t @ r) = Inr (reloaded (PBool b), r)"
      using scan_once_literals(2,3) [of m r] by (cases b) simp_all
  qed
next
  case (3 i)
  show ?case
  proof (intro allI impI)
    fix t r n assume "json_dumps (PInt i) = Inr t" "delim r" "scan_fuel (PInt i) \<le> n"
    then obtain m where "n = Suc m" "t = int_repr i" by (cases n) auto
    with \<open>delim r\<close> show "scan_once n (t @ r) = Inr (reloaded (PInt i), r)"
      by (simp add: scan_once_int)
  qed
next
  case (4 s)
  show ?case
  proof (intro allI impI)
    fix t r n assume "json_dumps (PStr s) = Inr t" "scan_fuel (PStr s) \<le> n"
    then obtain m where "n = Suc m" "t = encode_basestring_ascii s" by (cases n) auto
    then show "scan_once n (t @ r) = Inr (reloaded (PStr s), r)"
      by (simp add: encode_basestring_ascii_def scan_once_string scanstring_escaped)
  qed
next
  case (5 xs)
  show ?case
  proof (intro allI impI)
    fix t r n assume t: "json_dumps (PList xs) = Inr t" and n: "scan_fuel (PList xs) \<le> n"
    from n obtain m where m: "n = Suc m" "scan_fuel_list xs \<le> m" by (cases n) auto
    from t obtain ts where ts: "dumps_list xs = Inr ts" "t = ''['' @ ts @ '']''"
      by (auto split: sum.splits)
    show "scan_once n (t @ r) = Inr (reloaded (PList xs), r)"
    proof (cases "xs = []")
      case True
      with ts m show ?thesis by (simp add: scan_once_array)
    next
      case False
      then have sv: "starts_value (ts @ CHR '']'' # r)"
        using ts(1) by (intro starts_value_append starts_value_dumps_list)
      then obtain d cs where d: "ts @ CHR '']'' # r = d # cs" "d \<noteq> CHR '']''"
        by (cases "ts @ CHR '']'' # r") (auto simp: starts_value_def)
      have "array_loop m (ts @ CHR '']'' # r) [] = Inr (PList (reloaded_list xs), r)"
        using 5 False ts(1) m(2) by simp
      then show ?thesis
        using ts(2) m(1) d skip_ws_starts_value [OF sv] by (simp add: scan_once_array)
    qed
  qed
next
  case (6 xs)
  show ?case
  proof (intro allI impI)
    fix t r n assume t: "json_dumps (PTuple xs) = Inr t" and n: "scan_fuel (PTuple xs) \<le> n"
    from n obtain m where m: "n = Suc m" "scan_fuel_list xs \<le> m" by (cases n) auto
    from t obtain ts where ts: "dumps_list xs = Inr ts" "t = ''['' @ ts @ '']''"
      by (auto split: sum.splits)
    show "scan_once n (t @ r) = Inr (reloaded (PTuple xs), r)"
    proof (cases "xs = []")
      case True
      with ts m show ?thesis by (simp add: scan_once_array)
    next
      case False
      then have sv: "starts_value (ts @ CHR '']'' # r)"
        using ts(1) by (intro starts_value_append starts_value_dumps_list)
      then obtain d cs where d: "ts @ CHR '']'' # r = d # cs" "d \<noteq> CHR '']''"
        by (cases "ts @ CHR '']'' # r") (auto simp: starts_value_def)
      have "array_loop m (ts @ CHR '']'' # r) [] = Inr (PList (reloaded_list xs), r)"
        using 6 False ts(1) m(2) by simp
      then show ?thesis
        using ts(2) m(1) d skip_ws_starts_value [OF sv] by (simp add: scan_once_array)
    qed
  qed
next
  case (7 kvs)
  show ?case
  proof (intro allI impI)
    fix t r n assume t: "json_dumps (PDict kvs) = Inr t" and n: "scan_fuel (PDict kvs) \<le> n"
    from n obtain m where m: "n = Suc m" "scan_fuel_items kvs \<le> m" by (cases n) auto
    from t obtain ts where ts: "dumps_items kvs = Inr ts" "t = ''{'' @ ts @ ''}''"
      by (auto split: sum.splits)
    show "scan_once n (t @ r) = Inr (reloaded (PDict kvs), r)"
    proof (cases kvs)
      case Nil
      with ts m show ?thesis by (simp add: scan_once_object dict_of_pairs_def)
    next
      case (Cons kv kvs')
      with ts(1) obtain cs where cs: "ts = CHR 0x22 # cs"
        by (auto simp: encode_basestring_ascii_def split: sum.splits)
      have "object_loop m (tl ts @ CHR ''}'' # r) [] =
          Inr (PDict (dict_of_pairs (reloaded_items kvs)), r)"
        using 7 Cons ts(1) m(2) by simp
      then show ?thesis
        using ts(2) m(1) cs by (simp add: scan_once_object)
    qed
  qed
next
  case (8 k)
  show ?case by simp
next
  case 9
  show ?case by simp
next
  case (10 x xs)
  show ?case
  proof (intro allI impI)
    fix ts r n acc
    assume ts: "dumps_list (x # xs) = Inr ts" and n: "scan_fuel_list (x # xs) \<le> n"
    from n obtain m where m: "n = Suc m" "scan_fuel x \<le> m" "scan_fuel_list xs \<le> m"
      by (cases n) auto
    from ts obtain t ts0 where t: "json_dumps x = Inr t" "dumps_list xs = Inr ts0"
      "ts = (if xs = [] then t else t @ '', '' @ ts0)"
      by (auto split: sum.splits)
    show "array_loop n (ts @ CHR '']'' # r) acc
        = Inr (PList (acc @ reloaded_list (x # xs)), r)"
    proof (cases "xs = []")
      case True
      have "scan_once m (t @ CHR '']'' # r) = Inr (reloaded x, CHR '']'' # r)"
        using "10.IH"(1) t(1) m(2) by simp
      then show ?thesis
        using True t(3) m(1) by (simp add: array_loop_last)
    next
      case False
      let ?s' = "ts0 @ CHR '']'' # r"
      have sv: "starts_value ?s'"
        using False t(2) by (intro starts_value_append starts_value_dumps_list)
      have "scan_once m (t @ ('', '' @ ?s')) = Inr (reloaded x, '', '' @ ?s')"
        using "10.IH"(1) t(1) m(2) by simp
      then have "array_loop (Suc m) (t @ ('', '' @ ?s')) acc
          = array_loop m ?s' (acc @ [reloaded x])"
        using sv by (rule array_loop_more)
      moreover have "array_loop m ?s' (acc @ [reloaded x])
          = Inr (PList ((acc @ [reloaded x]) @ reloaded_list xs), r)"
        using "10.IH"(2) [OF t(1)] False t(2) m(3) by simp
      ultimately show ?thesis
        using False t(3) m(1) by simp
    qed
  qed
next
  case 11
  show ?case by simp
next
  case (12 kv kvs)
  show ?case
  proof (intro allI impI)
    fix ts r n ps
    assume ts: "dumps_items (kv # kvs) = Inr ts" and n: "scan_fuel_items (kv # kvs) \<le> n"
    from n obtain m where m: "n = Suc m" "scan_fuel (snd kv) \<le> m" "scan_fuel_items kvs \<le> m"
      by (cases n) auto
    from ts obtain t ts0 where t: "json_dumps (snd kv) = Inr t" "dumps_items kvs = Inr ts0"
      "ts = encode_basestring_ascii (fst kv) @ '': '' @ t @
            (if kvs = [] then [] else '', '' @ ts0)"
      by (auto split: sum.splits)
    have svt: "starts_value (t @ s)" for s
      using t(1) by (intro starts_value_append starts_value_dumps)
    show "object_loop n (tl ts @ CHR ''}'' # r) ps
        = Inr (PDict (dict_of_pairs (ps @ reloaded_items (kv # kvs))), r)"
    proof (cases "kvs = []")
      case True
      have "scan_once m (t @ CHR ''}'' # r) = Inr (reloaded (snd kv), CHR ''}'' # r)"
        using "12.IH"(1) t(1) m(2) by simp
      then have "object_loop (Suc m)
          (concat (map escape_char (fst kv)) @ CHR 0x22 # '': '' @ (t @ CHR ''}'' # r)) ps
          = Inr (PDict (dict_of_pairs (ps @ [(fst kv, reloaded (snd kv))])), r)"
        using svt by (rule object_loop_last)
      then show ?thesis
        using True t(3) m(1) by (simp add: encode_basestring_ascii_def)
    next
      case False
      with t(2) obtain cs where cs: "ts0 = CHR 0x22 # cs"
        by (cases kvs) (auto simp: encode_basestring_ascii_def split: sum.splits)
      let ?s' = "cs @ CHR ''}'' # r"
      have "scan_once m (t @ ('', '' @ CHR 0x22 # ?s'))
          = Inr (reloaded (snd kv), '', '' @ CHR 0x22 # ?s')"
        using "12.IH"(1) t(1) m(2) by simp
      then have "object_loop (Suc m)
          (concat (map escape_char (fst kv)) @ CHR 0x22 # '': '' @
             (t @ ('', '' @ CHR 0x22 # ?s'))) ps
          = object_loop m ?s' (ps @ [(fst kv, reloaded (snd kv))])"
        using svt by (rule object_loop_more)
      moreover have "object_loop m (tl ts0 @ CHR ''}'' # r) (ps @ [(fst kv, reloaded (snd kv))])
          = Inr (PDict (dict_of_pairs ((ps @ [(fst kv, reloaded (snd kv))])
              @ reloaded_items kvs)), r)"
        using "12.IH"(2) [OF t(1)] False t(2) m(3) by simp
      ultimately show ?thesis
        using False t(3) m(1) cs by (simp add: encode_basestring_ascii_def)
    qed
  qed
qed


lemma scan_fuel_le:
  "\<forall>t. json_dumps v = Inr t \<longrightarrow> scan_fuel v \<le> length t"
  "\<forall>ts. dumps_list xs = Inr ts \<longrightarrow> scan_fuel_list xs \<le> Suc (length ts)"
  "\<forall>ts. dumps_items kvs = Inr ts \<longrightarrow> scan_fuel_items kvs \<le> Suc (length ts)"
proof (induction v and xs and kvs rule: json_dumps_dumps_list_dumps_items.induct)
  case (3 i)
  obtain c ds where "int_repr i = c # ds"
    using int_repr_first [of i] by blast
  then show ?case by simp
next
  case (10 x xs)
  then show ?case
    by (auto split: sum.splits)
next
  case (12 kv kvs)
  then show ?case
    by (auto split: sum.splits)
qed (auto simp: encode_basestring_ascii_def split: sum.splits)

lemma loads_dumps:
  assumes "json_dumps v = Inr t"
  shows "json_loads t = Inr (reloaded v)"
proof -
  have "scan_fuel v \<le> 2 * length t + 1"
    using scan_fuel_le(1) [of v] assms by (auto intro: le_trans)
  then have "scan_once (2 * length t + 1) (t @ []) = Inr (reloaded v, [])"
    using scan_dumps(1) [rule_format, OF assms, of "[]" "2 * length t + 1"] by simp
  then show ?thesis
    using skip_ws_starts_value [OF starts_value_dumps [OF assms]]
    by (simp add: json_loads_def)
qed

lemma update_fresh: "k \<notin> fst ` set al \<Longrightarrow> AList.update k v al = al @ [(k, v)]"
  by (induction al) auto

lemma foldl_update_distinct:
  "distinct (map fst (acc @ kvs)) \<Longrightarrow>
   foldl (\<lambda>d kv. AList.update (fst kv) (snd kv) d) acc kvs = acc @ kvs"
proof (induction kvs arbitrary: acc)
  case Nil
  show ?case by simp
next
  case (Cons kv kvs)
  have "AList.update (fst kv) (snd kv) acc = acc @ [kv]"
    using Cons.prems by (intro update_fresh [THEN trans]) auto
  then show ?case
    using Cons.prems Cons.IH [of "acc @ [kv]"] by simp
qed

lemma dict_of_pairs_distinct: "distinct (map fst kvs) \<Longrightarrow> dict_of_pairs kvs = kvs"
  using foldl_update_distinct [of "[]" kvs] by (simp add: dict_of_pairs_def)

lemma reloaded_items_keys: "map fst (reloaded_items kvs) = map fst kvs"
  by (induction kvs) simp_all

lemma reloaded_native:
  "json_native v \<longrightarrow> reloaded v = v"
  "json_native_list xs \<longrightarrow> reloaded_list xs = xs"
  "json_native_items kvs \<longrightarrow> reloaded_items kvs = kvs"
  by (induction v and xs and kvs rule: json_native_json_native_list_json_native_items.induct)
     (auto simp: dict_of_pairs_distinct)

lemma dumps_native:
  "json_native v \<longrightarrow> (\<exists>t. json_dumps v = Inr t)"
  "json_native_list xs \<longrightarrow> (\<exists>ts. dumps_list xs = Inr ts)"
  "json_native_items kvs \<longrightarrow> (\<exists>ts. dumps_items kvs = Inr ts)"
  by (induction v and xs and kvs rule: json_native_json_native_list_json_native_items.induct)
     auto

lemma loads_envelope_dumps:
  assumes "dumps_envelope v = Inr t"
  shows "loads_envelope t = Inr (reloaded v)"
  using loads_dumps [OF assms [unfolded dumps_envelope_def]]
  by (simp add: loads_envelope_def getitem_def dict_of_pairs_def)

lemma dumps_envelope_native:
  assumes "json_native v"
  shows "\<exists>t. dumps_envelope v = Inr t \<and> loads_envelope t = Inr v"
proof -
  from assms have "json_native (PDict [(''data'', v)])" by simp
  with dumps_native(1) obtain t where t: "dumps_envelope v = Inr t"
    unfolding dumps_envelope_def by blast
  from loads_envelope_dumps [OF t] reloaded_native(1) assms
  have "loads_envelope t = Inr v" by simp
  with t show ?thesis by blast
qed

lemma get_remote_found:
  "get_remote k e =
     (case found e None of
        None \<Rightarrow> (Inl ValueError, e)
      | Some x \<Rightarrow> (Inr (remote_recv e x k), e))"
  by (simp add: get_remote_def bind_def conversation_eq split: option.splits)

text \<open>What the plugin publishes reaches the principal's getter as what \<open>json.loads\<close>
  makes of it.\<close>

lemma config_delivered:
  assumes "conversations p = c # rest" and "found p c = Some sc"
    and "dumps_envelope d = Inr t" and "found r None = Some sc'"
  shows "fst (requires_configuration_data
            (deliver (snd (provides_set_configuration_data d p)) sc r sc'))
          = Inr (reloaded d)"
proof -
  let ?p = "snd (provides_set_configuration_data d p)"
  let ?r = "deliver ?p sc r sc'"
  have "?p = write_pair ''_configuration_data'' (Some t) sc p"
    using assms(1-3) by (simp add: provides_set_configuration_data_eq)
  then have s: "remote_sent ?p sc ''_configuration_data'' = Some t"
    by (simp add: write_pair_def)
  have "found ?r = found r"
    by (rule found_cong) (simp_all add: deliver_def)
  with assms(4) have f: "found ?r None = Some sc'" by simp
  have "remote_recv ?r sc' ''_configuration_data'' = Some t"
    using s by (simp add: deliver_def)
  with f have "get_remote ''_configuration_data'' ?r = (Inr (Some t), ?r)"
    by (simp add: get_remote_found)
  then show ?thesis
    using loads_envelope_dumps [OF assms(3)]
    by (simp add: requires_configuration_data_def bind_def seq_def hookenv_log_def lift_def)
qed

lemma list_config_text_eq: "dumps_envelope list_config = Inr list_config_text"
  by (simp add: dumps_envelope_def list_config_def list_config_text_def quoted_def
      encode_basestring_ascii_def escape_char_def)

lemma tuple_config_text_eq: "dumps_envelope tuple_config = Inr list_config_text"
  by (simp add: dumps_envelope_def tuple_config_def list_config_text_def quoted_def
      encode_basestring_ascii_def escape_char_def)

lemma reloaded_tuple_config: "reloaded tuple_config = list_config"
  by (simp add: tuple_config_def list_config_def dict_of_pairs_def)

lemma json_native_list_config: "json_native list_config"
  by (simp add: list_config_def)

lemma found_joined:
  "found joined_plugin (Some ''global'') = Some ''global''"
  "found joined_principal None = Some ''plugin/0''"
  "found joined_principal (Some ''plugin/0'') = Some ''plugin/0''"
  by (simp_all add: found_Some found_None joined_plugin_eval joined_principal_eval)

text \<open>
  Claim C3 as stated fails for a configuration in the format the docstrings give, with
  tuples of pairs for the sections: \<open>json.dumps\<close> writes a tuple as an array and
  \<open>json.loads\<close> reads an array as a list, so what the principal's getter returns has
  lists where the plugin's value had tuples, and a list never equals a tuple.
\<close>

theorem tuples_come_back_as_lists:
  "dumps_envelope tuple_config = Inr list_config_text \<and>
   loads_envelope list_config_text = Inr list_config \<and>
   list_config \<noteq> tuple_config \<and> \<not> py_eq list_config tuple_config \<and>
   fst (requires_configuration_data
          (deliver (snd (provides_set_configuration_data tuple_config joined_plugin))
             ''global'' joined_principal ''plugin/0''))
     = Inr list_config"
proof -
  have 1: "loads_envelope list_config_text = Inr list_config"
    using loads_envelope_dumps [OF tuple_config_text_eq] by (simp add: reloaded_tuple_config)
  have 2: "list_config \<noteq> tuple_config" "\<not> py_eq list_config tuple_config"
    by (simp_all add: list_config_def tuple_config_def)
  have 3: "fst (requires_configuration_data
          (deliver (snd (provides_set_configuration_data tuple_config joined_plugin))
             ''global'' joined_principal ''plugin/0''))
     = Inr list_config"
    using config_delivered [OF joined_plugin_eval(2) found_joined(1) tuple_config_text_eq
        found_joined(2)]
    by (simp add: reloaded_tuple_config)
  from tuple_config_text_eq 1 2 3 show ?thesis by blast
qed

text \<open>
  Claim C3, amended. Decoding the envelope of a value gives the value with a list for each
  tuple. So for a record made of JSON's own types (\<open>None\<close>, booleans, integers, strings,
  lists and dictionaries) the envelope can be written and decoding it gives the record
  back, and a configuration of that kind set on the plugin is what the principal's getter
  returns once it is delivered.
\<close>

theorem envelope_round_trip:
  "(dumps_envelope d = Inr t \<longrightarrow> loads_envelope t = Inr (reloaded d)) \<and>
   (json_native d \<longrightarrow> reloaded d = d \<and>
      (\<exists>t'. dumps_envelope d = Inr t' \<and> loads_envelope t' = Inr d)) \<and>
   (json_native d \<and> conversations p = c # rest \<and> found p c = Some sc \<and>
    found r None = Some sc' \<longrightarrow>
      fst (requires_configuration_data
             (deliver (snd (provides_set_configuration_data d p)) sc r sc'))
        = Inr d)"
proof -
  have 1: "loads_envelope t = Inr (reloaded d)" if "dumps_envelope d = Inr t"
    using that by (rule loads_envelope_dumps)
  have 2: "reloaded d = d \<and> (\<exists>t'. dumps_envelope d = Inr t' \<and> loads_envelope t' = Inr d)"
    if "json_native d"
    using that reloaded_native(1) dumps_envelope_native by blast
  have 3: "fst (requires_configuration_data
             (deliver (snd (provides_set_configuration_data d p)) sc r sc'))
        = Inr d"
    if n: "json_native d" and c: "conversations p = c # rest" "found p c = Some sc"
      "found r None = Some sc'"
  proof -
    from dumps_envelope_native [OF n] obtain t' where "dumps_envelope d = Inr t'" by blast
    from config_delivered [OF c(1,2) this c(3)] reloaded_native(1) n
    show ?thesis by simp
  qed
  from 1 2 3 show ?thesis by blast
qed

theorem envelope_round_trip_witness:
  "json_native list_config \<and>
   dumps_envelope list_config = Inr list_config_text \<and>
   reloaded list_config = list_config \<and>
   loads_envelope list_config_text = Inr list_config \<and>
   conversations joined_plugin = Some ''global'' # [] \<and>
   found joined_plugin (Some ''global'') = Some ''global'' \<and>
   found joined_principal None = Some ''plugin/0'' \<and>
   fst (requires_configuration_data
          (deliver (snd (provides_set_configuration_data list_config joined_plugin))
             ''global'' joined_principal ''plugin/0''))
     = Inr list_config"
proof -
  note t = envelope_round_trip [of list_config list_config_text joined_plugin
      "Some ''global''" "[]" "''global''" joined_principal "''plugin/0''"]
  have c: "conversations joined_plugin = Some ''global'' # []"
    by (simp add: joined_plugin_eval)
  from t json_native_list_config have 1: "reloaded list_config = list_config"
    by blast
  from t list_config_text_eq have "loads_envelope list_config_text = Inr (reloaded list_config)"
    by blast
  with 1 have 2: "loads_envelope list_config_text = Inr list_config"
    by simp
  from t json_native_list_config c found_joined(1,2)
  have 3: "fst (requires_configuration_data
          (deliver (snd (provides_set_configuration_data list_config joined_plugin))
             ''global'' joined_principal ''plugin/0''))
     = Inr list_config"
    by blast
  from json_native_list_config list_config_text_eq 1 2 c found_joined(1,2) 3
  show ?thesis by blast
qed

end
